theory Spec2Isabelle
  imports Main
begin

section \<open>The syntax tree\<close>

text \<open>
  The part of \<^verbatim>\<open>go/token\<close> and \<^verbatim>\<open>go/ast\<close> that \<^verbatim>\<open>main.go\<close> looks at. The program
  tells apart return statements, call expressions, identifiers, if statements and binary
  expressions; every other kind of node is only walked through by \<^verbatim>\<open>ast.Inspect\<close>, so it
  is kept as \<open>OtherExpr\<close> or \<open>OtherStmt\<close> with the name of its kind and its children in
  the order in which \<^verbatim>\<open>ast.Walk\<close> visits them. A \<^verbatim>\<open>*ast.BlockStmt\<close> that is the body of an
  if statement, of a loop or of a function is given by its statement list. An integer
  literal is given by its value.
\<close>

datatype token =
    ADD | SUB | MUL | QUO | REM | LAND | LOR
  | EQL | LSS | GTR | NEQ | LEQ | GEQ
  | ASSIGN | DEFINE

datatype expr =
    Ident string
  | BasicLit int
  | BinaryExpr expr token expr
  | CallExpr expr "expr list"
  | OtherExpr string "node list"
and stmt =
    IfStmt "stmt option" expr "stmt list" "stmt option"
  | ForStmt "stmt option" "expr option" "stmt option" "stmt list"
  | ReturnStmt "expr list"
  | AssignStmt "expr list" token "expr list"
  | BlockStmt "stmt list"
  | ExprStmt expr
  | OtherStmt string "node list"
and node =
    ExprNode expr
  | StmtNode stmt

text \<open>A parameter field \<^verbatim>\<open>ast.Field\<close>: the names it declares (none for an unnamed
  parameter, several for \<^verbatim>\<open>a, b int\<close>) and its type.\<close>

datatype field = Field (Names: "string list") (Type: expr)

text \<open>A top-level declaration: a function (its body is \<open>None\<close> when the declaration has
  none) or anything else.\<close>

datatype decl =
    FuncDecl (Name: string) (Params: "field list") (Body: "stmt list option")
  | GenDecl string

section \<open>findTailRecursionReturn\<close>

text \<open>The two variables \<^verbatim>\<open>tailReturn\<close> and \<^verbatim>\<open>call\<close> that the closure writes: both nil, or
  the return statement and its call.\<close>

type_synonym found = "(stmt \<times> expr) option"

text \<open>The closure handed to \<^verbatim>\<open>ast.Inspect\<close>, at a statement node: the new value of the
  two variables and the boolean it returns.\<close>

definition visit :: "string \<Rightarrow> stmt \<Rightarrow> found \<Rightarrow> found \<times> bool" where
  "visit fname n st =
     (case n of
        ReturnStmt results \<Rightarrow>
          if length results \<noteq> 1 then (st, True)
          else (case results ! 0 of
                  CallExpr fun args \<Rightarrow>
                    (case fun of
                       Ident f \<Rightarrow> if f = fname then (Some (n, results ! 0), False) else (st, True)
                     | _ \<Rightarrow> (st, True))
                | _ \<Rightarrow> (st, True))
      | _ \<Rightarrow> (st, True))"

text \<open>\<^verbatim>\<open>ast.Inspect\<close>: depth first, the node before its children, the children in the order
  of \<^verbatim>\<open>ast.Walk\<close>. When the closure returns false the children of that node are not
  visited, and the walk goes on with the nodes after it. At an expression node the closure
  changes nothing and returns true.\<close>

fun walkExpr :: "string \<Rightarrow> expr \<Rightarrow> found \<Rightarrow> found"
  and walkStmt :: "string \<Rightarrow> stmt \<Rightarrow> found \<Rightarrow> found"
  and walkNode :: "string \<Rightarrow> node \<Rightarrow> found \<Rightarrow> found" where
  "walkExpr fname (Ident x) st = st"
| "walkExpr fname (BasicLit v) st = st"
| "walkExpr fname (BinaryExpr x op y) st = walkExpr fname y (walkExpr fname x st)"
| "walkExpr fname (CallExpr f args) st = fold (walkExpr fname) args (walkExpr fname f st)"
| "walkExpr fname (OtherExpr kind children) st = fold (walkNode fname) children st"
| "walkStmt fname (IfStmt init cond body els) st =
     (case visit fname (IfStmt init cond body els) st of
        (st0, descend) \<Rightarrow>
          if \<not> descend then st0
          else
            let st1 = (case init of None \<Rightarrow> st0 | Some i \<Rightarrow> walkStmt fname i st0);
                st2 = walkExpr fname cond st1;
                st3 = fold (walkStmt fname) body st2
            in (case els of None \<Rightarrow> st3 | Some e \<Rightarrow> walkStmt fname e st3))"
| "walkStmt fname (ForStmt init cond post body) st =
     (case visit fname (ForStmt init cond post body) st of
        (st0, descend) \<Rightarrow>
          if \<not> descend then st0
          else
            let st1 = (case init of None \<Rightarrow> st0 | Some i \<Rightarrow> walkStmt fname i st0);
                st2 = (case cond of None \<Rightarrow> st1 | Some c \<Rightarrow> walkExpr fname c st1);
                st3 = (case post of None \<Rightarrow> st2 | Some p \<Rightarrow> walkStmt fname p st2)
            in fold (walkStmt fname) body st3)"
| "walkStmt fname (ReturnStmt results) st =
     (case visit fname (ReturnStmt results) st of
        (st0, descend) \<Rightarrow>
          if \<not> descend then st0 else fold (walkExpr fname) results st0)"
| "walkStmt fname (AssignStmt lhs tok rhs) st =
     (case visit fname (AssignStmt lhs tok rhs) st of
        (st0, descend) \<Rightarrow>
          if \<not> descend then st0
          else fold (walkExpr fname) rhs (fold (walkExpr fname) lhs st0))"
| "walkStmt fname (BlockStmt list) st =
     (case visit fname (BlockStmt list) st of
        (st0, descend) \<Rightarrow>
          if \<not> descend then st0 else fold (walkStmt fname) list st0)"
| "walkStmt fname (ExprStmt x) st =
     (case visit fname (ExprStmt x) st of
        (st0, descend) \<Rightarrow>
          if \<not> descend then st0 else walkExpr fname x st0)"
| "walkStmt fname (OtherStmt kind children) st =
     (case visit fname (OtherStmt kind children) st of
        (st0, descend) \<Rightarrow>
          if \<not> descend then st0 else fold (walkNode fname) children st0)"
| "walkNode fname (ExprNode e) st = walkExpr fname e st"
| "walkNode fname (StmtNode s) st = walkStmt fname s st"

text \<open>\<^verbatim>\<open>findTailRecursionReturn\<close> walks the body of the function, starting with both
  variables nil, and returns the two variables.\<close>

definition findTailRecursionReturn :: "string \<Rightarrow> stmt list \<Rightarrow> found" where
  "findTailRecursionReturn fname body = walkStmt fname (BlockStmt body) None"

section \<open>makeAssignStmts\<close>

text \<open>Indexing a slice outside its length stops the program, and so does reading a field
  through a nil pointer.\<close>

datatype panic = IndexOutOfRange | NilDereference

text \<open>The first loop of \<^verbatim>\<open>makeAssignStmts\<close>, from parameter index \<open>i\<close> on, on the slices
  \<^verbatim>\<open>stmts\<close> and \<^verbatim>\<open>tmpNames\<close>: a field without names is passed over; for any other field the
  temporary is named after the first name of the field and is assigned \<^verbatim>\<open>args[i]\<close>.\<close>

fun stageLoop ::
  "field list \<Rightarrow> nat \<Rightarrow> expr list \<Rightarrow> stmt list \<times> expr list \<Rightarrow> panic + stmt list \<times> expr list" where
  "stageLoop [] i args (stmts, tmpNames) = Inr (stmts, tmpNames)"
| "stageLoop (param # rest) i args (stmts, tmpNames) =
     (if length (Names param) = 0 then stageLoop rest (i + 1) args (stmts, tmpNames)
      else
        let tmpName = Ident (''tmp'' @ Names param ! 0) in
        if i < length args
        then stageLoop rest (i + 1) args
               (stmts @ [AssignStmt [tmpName] DEFINE [args ! i]], tmpNames @ [tmpName])
        else Inl IndexOutOfRange)"

text \<open>The second loop, on the slices \<^verbatim>\<open>lhsIdents\<close> and \<^verbatim>\<open>rhsIdents\<close>: it reads
  \<^verbatim>\<open>tmpNames[i]\<close> at the index \<open>i\<close> of the field in the parameter list.\<close>

fun assignLoop ::
  "field list \<Rightarrow> nat \<Rightarrow> expr list \<Rightarrow> expr list \<times> expr list \<Rightarrow> panic + expr list \<times> expr list" where
  "assignLoop [] i tmpNames (lhsIdents, rhsIdents) = Inr (lhsIdents, rhsIdents)"
| "assignLoop (param # rest) i tmpNames (lhsIdents, rhsIdents) =
     (if length (Names param) = 0 then assignLoop rest (i + 1) tmpNames (lhsIdents, rhsIdents)
      else if i < length tmpNames
      then assignLoop rest (i + 1) tmpNames
             (lhsIdents @ [Ident (Names param ! 0)], rhsIdents @ [tmpNames ! i])
      else Inl IndexOutOfRange)"

definition makeAssignStmts :: "field list \<Rightarrow> expr list \<Rightarrow> panic + stmt list" where
  "makeAssignStmts params args =
     (case stageLoop params 0 args ([], []) of
        Inl e \<Rightarrow> Inl e
      | Inr (stmts, tmpNames) \<Rightarrow>
          (case assignLoop params 0 tmpNames ([], []) of
             Inl e \<Rightarrow> Inl e
           | Inr (lhsIdents, rhsIdents) \<Rightarrow>
               Inr (stmts @ [AssignStmt lhsIdents ASSIGN rhsIdents])))"

section \<open>The loop of main\<close>

text \<open>The base step: the first statement of the body when it is an if statement, given
  by its condition and the statements of its block.\<close>

definition baseIf :: "stmt list \<Rightarrow> (expr \<times> stmt list) option" where
  "baseIf body =
     (if length body > 0
      then (case body ! 0 of IfStmt init c ifBody els \<Rightarrow> Some (c, ifBody) | _ \<Rightarrow> None)
      else None)"

text \<open>The condition of the loop, \<^verbatim>\<open>cond\<close>, from the condition of the base step.\<close>

definition loopCond :: "expr \<Rightarrow> expr" where
  "loopCond c =
     (case c of
        BinaryExpr x op y \<Rightarrow>
          (case op of
             EQL \<Rightarrow> BinaryExpr x NEQ y
           | NEQ \<Rightarrow> BinaryExpr x EQL y
           | _ \<Rightarrow> c)
      | _ \<Rightarrow> c)"

text \<open>The test of the filtering loop: a return statement with one result that is a call
  of an identifier with the name of the function.\<close>

definition isSelfCallReturn :: "string \<Rightarrow> stmt \<Rightarrow> bool" where
  "isSelfCallReturn fname s =
     (case s of
        ReturnStmt results \<Rightarrow>
          length results = 1 \<and>
          (case results ! 0 of
             CallExpr fun args \<Rightarrow> (case fun of Ident f \<Rightarrow> f = fname | _ \<Rightarrow> False)
           | _ \<Rightarrow> False)
      | _ \<Rightarrow> False)"

text \<open>\<^verbatim>\<open>nonRecursiveStmts\<close>: the statements of the body that the filtering loop keeps. The
  comparison \<^verbatim>\<open>stmt == baseIf\<close> is between pointers; \<^verbatim>\<open>baseIf\<close> is the first element of the
  body and the nodes of a parsed tree are distinct objects, so it holds at index 0 only.\<close>

definition nonRecursiveStmts :: "string \<Rightarrow> stmt list \<Rightarrow> stmt list" where
  "nonRecursiveStmts fname body = filter (\<lambda>s. \<not> isSelfCallReturn fname s) (drop 1 body)"

text \<open>\<^verbatim>\<open>baseReturn\<close>: the first statement of the block of the base step when it is a return
  statement, nil otherwise.\<close>

definition baseReturn :: "stmt list \<Rightarrow> stmt option" where
  "baseReturn ifBody =
     (if length ifBody > 0
      then (case ifBody ! 0 of ReturnStmt rs \<Rightarrow> Some (ReturnStmt rs) | _ \<Rightarrow> None)
      else None)"

text \<open>What one turn of the loop over the declarations does to a declaration: it leaves
  it as it is (each \<^verbatim>\<open>continue\<close>), or it sets \<^verbatim>\<open>fn.Body.List\<close> to the loop statement followed
  by \<^verbatim>\<open>baseReturn\<close>, which may be nil. The assignment to \<^verbatim>\<open>fn.Body.List\<close> is the only write
  to the tree.\<close>

datatype outcome = Unchanged | NewBody stmt "stmt option"

definition callArgs :: "expr \<Rightarrow> expr list" where
  "callArgs e = (case e of CallExpr f args \<Rightarrow> args | _ \<Rightarrow> [])"

definition rewriteDecl :: "decl \<Rightarrow> panic + outcome" where
  "rewriteDecl d =
     (case d of
        GenDecl g \<Rightarrow> Inr Unchanged
      | FuncDecl fname params fbody \<Rightarrow>
          (case fbody of
             None \<Rightarrow> Inr Unchanged
           | Some body \<Rightarrow>
               (case findTailRecursionReturn fname body of
                  None \<Rightarrow> Inr Unchanged
                | Some (tailRet, callExpr) \<Rightarrow>
                    (case baseIf body of
                       None \<Rightarrow> Inr Unchanged
                     | Some (c, ifBody) \<Rightarrow>
                         (case makeAssignStmts params (callArgs callExpr) of
                            Inl e \<Rightarrow> Inl e
                          | Inr assignStmts \<Rightarrow>
                              Inr (NewBody
                                    (ForStmt None (Some (loopCond c)) None
                                       (assignStmts @ nonRecursiveStmts fname body))
                                    (baseReturn ifBody)))))))"

text \<open>The loop over the declarations of the file, in their order. A panic stops the
  program before anything is printed.\<close>

fun mainLoop :: "decl list \<Rightarrow> panic + outcome list" where
  "mainLoop [] = Inr []"
| "mainLoop (d # ds) =
     (case rewriteDecl d of
        Inl e \<Rightarrow> Inl e
      | Inr r \<Rightarrow> (case mainLoop ds of Inl e \<Rightarrow> Inl e | Inr rs \<Rightarrow> Inr (r # rs)))"

text \<open>
  \<^verbatim>\<open>printer.Fprint\<close>, as far as the statements that the loop above has made go. Before the
  printer prints a statement of a block it asks the statement for its position. The
  position of an assignment is the position of \<^verbatim>\<open>Lhs[0]\<close>, so an assignment without
  left-hand side stops the program with an index out of range; the position of a return
  statement is a field of the statement, so the nil \<^verbatim>\<open>baseReturn\<close> stops it with a nil
  dereference. The statements of the loop body are printed before the statement after
  the loop. The statements that the parser has made have positions.
\<close>

definition posPanic :: "stmt \<Rightarrow> panic option" where
  "posPanic s =
     (case s of
        AssignStmt lhs tok rhs \<Rightarrow> if length lhs = 0 then Some IndexOutOfRange else None
      | _ \<Rightarrow> None)"

definition printOutcome :: "outcome \<Rightarrow> panic option" where
  "printOutcome r =
     (case r of
        Unchanged \<Rightarrow> None
      | NewBody loop ret \<Rightarrow>
          (case List.map_filter posPanic (case loop of ForStmt i c p body \<Rightarrow> body | _ \<Rightarrow> []) of
             e # es \<Rightarrow> Some e
           | [] \<Rightarrow> (case ret of None \<Rightarrow> Some NilDereference | Some s \<Rightarrow> None)))"

text \<open>The program after parsing: the loop over the declarations, then the printer on the
  whole file.\<close>

definition mainProgram :: "decl list \<Rightarrow> panic + outcome list" where
  "mainProgram ds =
     (case mainLoop ds of
        Inl e \<Rightarrow> Inl e
      | Inr rs \<Rightarrow>
          (case List.map_filter printOutcome rs of
             e # es \<Rightarrow> Inl e
           | [] \<Rightarrow> Inr rs))"

section \<open>Vocabulary for the statements below\<close>

text \<open>A field is named when it declares a name; its first name is the only one that
  \<^verbatim>\<open>makeAssignStmts\<close> reads, and its temporary is that name after \<^verbatim>\<open>tmp\<close>.\<close>

definition named :: "field \<Rightarrow> bool" where
  "named p \<longleftrightarrow> Names p \<noteq> []"

definition firstName :: "field \<Rightarrow> string" where
  "firstName p = Names p ! 0"

definition tmpName :: "field \<Rightarrow> string" where
  "tmpName p = ''tmp'' @ firstName p"

text \<open>The declaring assignment \<^verbatim>\<open>tmpx := a\<close> of a field with first name \<^verbatim>\<open>x\<close>, and the
  combined assignment of a list of fields.\<close>

definition declStmt :: "field \<times> expr \<Rightarrow> stmt" where
  "declStmt pa = AssignStmt [Ident (tmpName (fst pa))] DEFINE [snd pa]"

definition combinedStmt :: "field list \<Rightarrow> stmt" where
  "combinedStmt ps =
     AssignStmt (map (\<lambda>p. Ident (firstName p)) ps) ASSIGN (map (\<lambda>p. Ident (tmpName p)) ps)"

text \<open>The expressions that a statement assigns to.\<close>

fun targets :: "stmt \<Rightarrow> expr list" where
  "targets (AssignStmt lhs tok rhs) = lhs"
| "targets s = []"

text \<open>The call that a return statement of one result returns.\<close>

definition resultCall :: "stmt \<Rightarrow> expr" where
  "resultCall s = (case s of ReturnStmt results \<Rightarrow> results ! 0 | _ \<Rightarrow> Ident [])"

text \<open>The pairs that the closure of \<^verbatim>\<open>findTailRecursionReturn\<close> writes to its two
  variables during the walk, in the order of the walk: the return statements of a single
  call of the function that the walk reaches, each with its call. The walk does not go
  below such a statement.\<close>

fun matchesExpr :: "string \<Rightarrow> expr \<Rightarrow> (stmt \<times> expr) list"
  and matchesStmt :: "string \<Rightarrow> stmt \<Rightarrow> (stmt \<times> expr) list"
  and matchesNode :: "string \<Rightarrow> node \<Rightarrow> (stmt \<times> expr) list" where
  "matchesExpr fname (Ident x) = []"
| "matchesExpr fname (BasicLit v) = []"
| "matchesExpr fname (BinaryExpr x op y) = matchesExpr fname x @ matchesExpr fname y"
| "matchesExpr fname (CallExpr f args) =
     matchesExpr fname f @ concat (map (matchesExpr fname) args)"
| "matchesExpr fname (OtherExpr kind children) = concat (map (matchesNode fname) children)"
| "matchesStmt fname (IfStmt init cond body els) =
     (case init of None \<Rightarrow> [] | Some i \<Rightarrow> matchesStmt fname i) @
     matchesExpr fname cond @
     concat (map (matchesStmt fname) body) @
     (case els of None \<Rightarrow> [] | Some e \<Rightarrow> matchesStmt fname e)"
| "matchesStmt fname (ForStmt init cond post body) =
     (case init of None \<Rightarrow> [] | Some i \<Rightarrow> matchesStmt fname i) @
     (case cond of None \<Rightarrow> [] | Some c \<Rightarrow> matchesExpr fname c) @
     (case post of None \<Rightarrow> [] | Some p \<Rightarrow> matchesStmt fname p) @
     concat (map (matchesStmt fname) body)"
| "matchesStmt fname (ReturnStmt results) =
     (if isSelfCallReturn fname (ReturnStmt results)
      then [(ReturnStmt results, results ! 0)]
      else concat (map (matchesExpr fname) results))"
| "matchesStmt fname (AssignStmt lhs tok rhs) =
     concat (map (matchesExpr fname) lhs) @ concat (map (matchesExpr fname) rhs)"
| "matchesStmt fname (BlockStmt list) = concat (map (matchesStmt fname) list)"
| "matchesStmt fname (ExprStmt x) = matchesExpr fname x"
| "matchesStmt fname (OtherStmt kind children) = concat (map (matchesNode fname) children)"
| "matchesNode fname (ExprNode e) = matchesExpr fname e"
| "matchesNode fname (StmtNode s) = matchesStmt fname s"

text \<open>The detector as the specification words it: the first pair in the order of the
  walk, none when there is no pair.\<close>

definition firstTailReturnSpec :: "string \<Rightarrow> stmt list \<Rightarrow> found" where
  "firstTailReturnSpec fname body =
     (case matchesStmt fname (BlockStmt body) of [] \<Rightarrow> None | m # ms \<Rightarrow> Some m)"

text \<open>The remainder as the specification words it: every statement of the body except
  the guard and the return statement that the detector found.\<close>

definition remainderSpec :: "stmt list \<Rightarrow> stmt \<Rightarrow> stmt \<Rightarrow> stmt list" where
  "remainderSpec body guard tailRet = filter (\<lambda>s. s \<noteq> guard \<and> s \<noteq> tailRet) body"

text \<open>The staging statements as the specification words them: one declaring assignment
  per named parameter, from the call argument at its position, then one combined
  assignment of all the named parameters from their temporaries.\<close>

definition stagingSpec :: "string list \<Rightarrow> expr list \<Rightarrow> stmt list" where
  "stagingSpec names args =
     map (\<lambda>xa. AssignStmt [Ident (''tmp'' @ fst xa)] DEFINE [snd xa]) (zip names args) @
     [AssignStmt (map Ident names) ASSIGN (map (\<lambda>x. Ident (''tmp'' @ x)) names)]"

text \<open>The names of the identifiers in a tree, in the order of the walk.\<close>

fun identsExpr :: "expr \<Rightarrow> string list"
  and identsStmt :: "stmt \<Rightarrow> string list"
  and identsNode :: "node \<Rightarrow> string list" where
  "identsExpr (Ident x) = [x]"
| "identsExpr (BasicLit v) = []"
| "identsExpr (BinaryExpr x op y) = identsExpr x @ identsExpr y"
| "identsExpr (CallExpr f args) = identsExpr f @ concat (map identsExpr args)"
| "identsExpr (OtherExpr kind children) = concat (map identsNode children)"
| "identsStmt (IfStmt init cond body els) =
     (case init of None \<Rightarrow> [] | Some i \<Rightarrow> identsStmt i) @
     identsExpr cond @
     concat (map identsStmt body) @
     (case els of None \<Rightarrow> [] | Some e \<Rightarrow> identsStmt e)"
| "identsStmt (ForStmt init cond post body) =
     (case init of None \<Rightarrow> [] | Some i \<Rightarrow> identsStmt i) @
     (case cond of None \<Rightarrow> [] | Some c \<Rightarrow> identsExpr c) @
     (case post of None \<Rightarrow> [] | Some p \<Rightarrow> identsStmt p) @
     concat (map identsStmt body)"
| "identsStmt (ReturnStmt results) = concat (map identsExpr results)"
| "identsStmt (AssignStmt lhs tok rhs) = concat (map identsExpr lhs) @ concat (map identsExpr rhs)"
| "identsStmt (BlockStmt list) = concat (map identsStmt list)"
| "identsStmt (ExprStmt x) = identsExpr x"
| "identsStmt (OtherStmt kind children) = concat (map identsNode children)"
| "identsNode (ExprNode e) = identsExpr e"
| "identsNode (StmtNode s) = identsStmt s"

text \<open>The identifiers of a function: the names of its parameters and the identifiers of
  its body, which holds the arguments of its calls.\<close>

definition identsFunc :: "field list \<Rightarrow> stmt list \<Rightarrow> string list" where
  "identsFunc params body = concat (map Names params) @ concat (map identsStmt body)"

text \<open>The names of the temporaries that the staging step makes for a parameter list.\<close>

definition tmpNames :: "field list \<Rightarrow> string list" where
  "tmpNames params = map tmpName (filter named params)"

section \<open>Running the functions before and after the rewrite\<close>

text \<open>
  A semantics for the fragment of Go in which the two scenarios of the specification are
  written, to compare a function with what \<open>rewriteDecl\<close> makes of it. Values are those
  of Go's \<^verbatim>\<open>int\<close> on a 64-bit platform: the integers from \<open>- 2 ^ 63\<close> up to \<open>2 ^ 63 - 1\<close>,
  with sums, differences and products wrapping around, and a literal outside this range
  has no value. A variable environment maps names to values and is not split into block
  scopes: \<^verbatim>\<open>:=\<close> on a name that is already bound overwrites it, where Go declares a new
  variable for the rest of the block, so the semantics is that of Go only for programs
  in which no declaration hides a variable of an enclosing block. Statements and
  expressions outside the fragment have no result. The fuel \<open>k\<close> bounds the depth of
  calls plus the number of loop iterations: each call and each iteration uses one unit,
  and running out of fuel gives no result, as a recursion does that runs out of stack.
\<close>

type_synonym env = "string \<Rightarrow> int option"

datatype flow = Next env | Returned int

definition isInt :: "int \<Rightarrow> bool" where
  "isInt v \<longleftrightarrow> - (2 ^ 63) \<le> v \<and> v < 2 ^ 63"

definition wrapInt :: "int \<Rightarrow> int" where
  "wrapInt v = (v + 2 ^ 63) mod 2 ^ 64 - 2 ^ 63"

fun arithOp :: "token \<Rightarrow> int \<Rightarrow> int \<Rightarrow> int option" where
  "arithOp ADD a b = Some (wrapInt (a + b))"
| "arithOp SUB a b = Some (wrapInt (a - b))"
| "arithOp MUL a b = Some (wrapInt (a * b))"
| "arithOp tok a b = None"

fun cmpOp :: "token \<Rightarrow> int \<Rightarrow> int \<Rightarrow> bool option" where
  "cmpOp EQL a b = Some (a = b)"
| "cmpOp NEQ a b = Some (a \<noteq> b)"
| "cmpOp LSS a b = Some (a < b)"
| "cmpOp LEQ a b = Some (a \<le> b)"
| "cmpOp GTR a b = Some (a > b)"
| "cmpOp GEQ a b = Some (a \<ge> b)"
| "cmpOp tok a b = None"

text \<open>An assignment stores all values at once: the right-hand sides are evaluated
  before this is called.\<close>

fun assignAll :: "expr list \<Rightarrow> int list \<Rightarrow> env \<Rightarrow> env option" where
  "assignAll [] [] env = Some env"
| "assignAll (Ident x # lhs) (v # vs) env = assignAll lhs vs (env(x \<mapsto> v))"
| "assignAll lhs vs env = None"

text \<open>A statement list runs until a statement returns or has no result.\<close>

fun execSeq :: "(env \<Rightarrow> stmt \<Rightarrow> flow option) \<Rightarrow> env \<Rightarrow> stmt list \<Rightarrow> flow option" where
  "execSeq ex env [] = Some (Next env)"
| "execSeq ex env (s # ss) =
     (case ex env s of
        Some (Next env') \<Rightarrow> execSeq ex env' ss
      | r \<Rightarrow> r)"

lemma execSeq_cong [fundef_cong]:
  "env = env' \<Longrightarrow> ss = ss' \<Longrightarrow> (\<And>e s. s \<in> set ss' \<Longrightarrow> ex e s = ex' e s) \<Longrightarrow>
   execSeq ex env ss = execSeq ex' env' ss'"
proof (induction ss arbitrary: env env' ss')
  case Nil
  then show ?case by simp
next
  case (Cons s ss)
  then show ?case by (auto split: option.splits flow.splits)
qed

text \<open>The parameter names and the body of the function declared with a name.\<close>

definition lookupFunc :: "decl list \<Rightarrow> string \<Rightarrow> (string list \<times> stmt list) option" where
  "lookupFunc ds f =
     (case find (\<lambda>d. case d of FuncDecl n ps b \<Rightarrow> n = f | GenDecl g \<Rightarrow> False) ds of
        Some (FuncDecl n ps (Some body)) \<Rightarrow> Some (concat (map Names ps), body)
      | _ \<Rightarrow> None)"

fun eval :: "nat \<Rightarrow> decl list \<Rightarrow> env \<Rightarrow> expr \<Rightarrow> int option"
  and evalCond :: "nat \<Rightarrow> decl list \<Rightarrow> env \<Rightarrow> expr \<Rightarrow> bool option"
  and exec :: "nat \<Rightarrow> decl list \<Rightarrow> env \<Rightarrow> stmt \<Rightarrow> flow option" where
  "eval k ds env (Ident x) = env x"
| "eval k ds env (BasicLit v) = (if isInt v then Some v else None)"
| "eval k ds env (BinaryExpr x op y) =
     (case eval k ds env x of
        None \<Rightarrow> None
      | Some a \<Rightarrow> (case eval k ds env y of None \<Rightarrow> None | Some b \<Rightarrow> arithOp op a b))"
| "eval k ds env (CallExpr fn args) =
     (case fn of
        Ident f \<Rightarrow>
          (case those (map (eval k ds env) args) of
             None \<Rightarrow> None
           | Some vs \<Rightarrow>
               (case k of
                  0 \<Rightarrow> None
                | Suc k' \<Rightarrow>
                    (case lookupFunc ds f of
                       None \<Rightarrow> None
                     | Some (names, body) \<Rightarrow>
                         (case assignAll (map Ident names) vs Map.empty of
                            None \<Rightarrow> None
                          | Some env0 \<Rightarrow>
                              (case execSeq (exec k' ds) env0 body of
                                 Some (Returned v) \<Rightarrow> Some v
                               | _ \<Rightarrow> None)))))
      | _ \<Rightarrow> None)"
| "eval k ds env (OtherExpr kind children) = None"
| "evalCond k ds env (BinaryExpr x op y) =
     (case eval k ds env x of
        None \<Rightarrow> None
      | Some a \<Rightarrow> (case eval k ds env y of None \<Rightarrow> None | Some b \<Rightarrow> cmpOp op a b))"
| "evalCond k ds env (Ident x) = None"
| "evalCond k ds env (BasicLit v) = None"
| "evalCond k ds env (CallExpr fn args) = None"
| "evalCond k ds env (OtherExpr kind children) = None"
| "exec k ds env (IfStmt init c body els) =
     (case init of
        Some i \<Rightarrow> None
      | None \<Rightarrow>
          (case evalCond k ds env c of
             None \<Rightarrow> None
           | Some True \<Rightarrow> execSeq (exec k ds) env body
           | Some False \<Rightarrow> (case els of None \<Rightarrow> Some (Next env) | Some e \<Rightarrow> exec k ds env e)))"
| "exec k ds env (ForStmt init c post body) =
     (case (init, c, post) of
        (None, Some c', None) \<Rightarrow>
          (case evalCond k ds env c' of
             None \<Rightarrow> None
           | Some False \<Rightarrow> Some (Next env)
           | Some True \<Rightarrow>
               (case k of
                  0 \<Rightarrow> None
                | Suc k' \<Rightarrow>
                    (case execSeq (exec k' ds) env body of
                       Some (Next env') \<Rightarrow> exec k' ds env' (ForStmt init c post body)
                     | r \<Rightarrow> r)))
      | _ \<Rightarrow> None)"
| "exec k ds env (ReturnStmt results) =
     (case results of
        [e] \<Rightarrow> map_option Returned (eval k ds env e)
      | _ \<Rightarrow> None)"
| "exec k ds env (AssignStmt lhs tok rhs) =
     (if tok = DEFINE \<or> tok = ASSIGN
      then (case those (map (eval k ds env) rhs) of
              None \<Rightarrow> None
            | Some vs \<Rightarrow> map_option Next (assignAll lhs vs env))
      else None)"
| "exec k ds env (BlockStmt list) = execSeq (exec k ds) env list"
| "exec k ds env (ExprStmt x) = None"
| "exec k ds env (OtherStmt kind children) = None"

text \<open>The declaration after the loop over the declarations has handled it; a body whose
  second statement is nil is not a tree that can be run.\<close>

definition withBody :: "decl \<Rightarrow> outcome \<Rightarrow> decl option" where
  "withBody d r =
     (case r of
        Unchanged \<Rightarrow> Some d
      | NewBody loop ret \<Rightarrow>
          (case ret of
             None \<Rightarrow> None
           | Some s \<Rightarrow> Some (FuncDecl (Name d) (Params d) (Some [loop, s]))))"

text \<open>The call \<^verbatim>\<open>f(v1, ..., vn)\<close> on integer literals, and its value in a program.\<close>

definition callOf :: "string \<Rightarrow> int list \<Rightarrow> expr" where
  "callOf f vs = CallExpr (Ident f) (map BasicLit vs)"

definition run :: "nat \<Rightarrow> decl \<Rightarrow> int list \<Rightarrow> int option" where
  "run k d vs = eval k [d] Map.empty (callOf (Name d) vs)"

section \<open>The scenarios\<close>

definition intT :: expr where
  "intT = Ident ''int''"

text \<open>\<^verbatim>\<open>func Sum(n int, acc int) int { if n == 0 { return acc }; return Sum(n-1, acc+n) }\<close>\<close>

definition sumBody :: "stmt list" where
  "sumBody =
     [IfStmt None (BinaryExpr (Ident ''n'') EQL (BasicLit 0)) [ReturnStmt [Ident ''acc'']] None,
      ReturnStmt [CallExpr (Ident ''Sum'')
        [BinaryExpr (Ident ''n'') SUB (BasicLit 1), BinaryExpr (Ident ''acc'') ADD (Ident ''n'')]]]"

definition sumDecl :: decl where
  "sumDecl = FuncDecl ''Sum'' [Field [''n''] intT, Field [''acc''] intT] (Some sumBody)"

text \<open>\<^verbatim>\<open>for n != 0 { tmpn := n - 1; tmpacc := acc + n; n, acc = tmpn, tmpacc }; return acc\<close>\<close>

definition sumLoop :: stmt where
  "sumLoop =
     ForStmt None (Some (BinaryExpr (Ident ''n'') NEQ (BasicLit 0))) None
       [AssignStmt [Ident ''tmpn''] DEFINE [BinaryExpr (Ident ''n'') SUB (BasicLit 1)],
        AssignStmt [Ident ''tmpacc''] DEFINE [BinaryExpr (Ident ''acc'') ADD (Ident ''n'')],
        AssignStmt [Ident ''n'', Ident ''acc''] ASSIGN [Ident ''tmpn'', Ident ''tmpacc'']]"

definition sumRewritten :: decl where
  "sumRewritten =
     FuncDecl ''Sum'' [Field [''n''] intT, Field [''acc''] intT]
       (Some [sumLoop, ReturnStmt [Ident ''acc'']])"

text \<open>The same function with both parameters in one field, \<^verbatim>\<open>func Sum(n, acc int) int\<close>,
  and what \<open>rewriteDecl\<close> makes of it:
  \<^verbatim>\<open>for n != 0 { tmpn := n - 1; n = tmpn }; return acc\<close>\<close>

definition sumGrouped :: decl where
  "sumGrouped = FuncDecl ''Sum'' [Field [''n'', ''acc''] intT] (Some sumBody)"

definition sumGroupedRewritten :: decl where
  "sumGroupedRewritten =
     FuncDecl ''Sum'' [Field [''n'', ''acc''] intT]
       (Some [ForStmt None (Some (BinaryExpr (Ident ''n'') NEQ (BasicLit 0))) None
                [AssignStmt [Ident ''tmpn''] DEFINE [BinaryExpr (Ident ''n'') SUB (BasicLit 1)],
                 AssignStmt [Ident ''n''] ASSIGN [Ident ''tmpn'']],
              ReturnStmt [Ident ''acc'']])"

text \<open>\<^verbatim>\<open>func F(a int, b int) int { if a == 0 { return b }; return F(b, a) }\<close>\<close>

definition swapBody :: "stmt list" where
  "swapBody =
     [IfStmt None (BinaryExpr (Ident ''a'') EQL (BasicLit 0)) [ReturnStmt [Ident ''b'']] None,
      ReturnStmt [CallExpr (Ident ''F'') [Ident ''b'', Ident ''a'']]]"

definition swapDecl :: decl where
  "swapDecl = FuncDecl ''F'' [Field [''a''] intT, Field [''b''] intT] (Some swapBody)"

text \<open>\<^verbatim>\<open>for a != 0 { tmpa := b; tmpb := a; a, b = tmpa, tmpb }; return b\<close>\<close>

definition swapStaging :: "stmt list" where
  "swapStaging =
     [AssignStmt [Ident ''tmpa''] DEFINE [Ident ''b''],
      AssignStmt [Ident ''tmpb''] DEFINE [Ident ''a''],
      AssignStmt [Ident ''a'', Ident ''b''] ASSIGN [Ident ''tmpa'', Ident ''tmpb'']]"

definition swapLoop :: stmt where
  "swapLoop = ForStmt None (Some (BinaryExpr (Ident ''a'') NEQ (BasicLit 0))) None swapStaging"

definition swapRewritten :: decl where
  "swapRewritten =
     FuncDecl ''F'' [Field [''a''] intT, Field [''b''] intT]
       (Some [swapLoop, ReturnStmt [Ident ''b'']])"

text \<open>The states of the swap scenario. One turn of the rewritten loop runs the staging
  statements; one call of the recursive function binds the parameters \<open>a\<close> and \<open>b\<close> to
  the values of the arguments \<open>b\<close> and \<open>a\<close>. Neither needs fuel. \<open>iter\<close> repeats a step.\<close>

definition swapTurn :: "env \<Rightarrow> env option" where
  "swapTurn env =
     (case execSeq (exec 0 []) env swapStaging of
        Some (Next env') \<Rightarrow> Some env'
      | _ \<Rightarrow> None)"

definition swapCall :: "env \<Rightarrow> env option" where
  "swapCall env =
     (case those (map (eval 0 [] env) [Ident ''b'', Ident ''a'']) of
        None \<Rightarrow> None
      | Some vs \<Rightarrow> assignAll [Ident ''a'', Ident ''b''] vs Map.empty)"

fun iter :: "(env \<Rightarrow> env option) \<Rightarrow> nat \<Rightarrow> env \<Rightarrow> env option" where
  "iter step 0 env = Some env"
| "iter step (Suc n) env = (case step env of None \<Rightarrow> None | Some env' \<Rightarrow> iter step n env')"

text \<open>The same function with both parameters in one field, \<^verbatim>\<open>func F(a, b int) int\<close>.\<close>

definition swapGrouped :: decl where
  "swapGrouped = FuncDecl ''F'' [Field [''a'', ''b''] intT] (Some swapBody)"

text \<open>What \<open>rewriteDecl\<close> makes of it:
  \<^verbatim>\<open>for a != 0 { tmpa := b; a = tmpa }; return b\<close>\<close>

definition swapGroupedRewritten :: decl where
  "swapGroupedRewritten =
     FuncDecl ''F'' [Field [''a'', ''b''] intT]
       (Some [ForStmt None (Some (BinaryExpr (Ident ''a'') NEQ (BasicLit 0))) None
                [AssignStmt [Ident ''tmpa''] DEFINE [Ident ''b''],
                 AssignStmt [Ident ''a''] ASSIGN [Ident ''tmpa'']],
              ReturnStmt [Ident ''b'']])"

text \<open>A variadic function that calls itself without the variadic arguments:
  \<^verbatim>\<open>func Sum(n int, rest ...int) int { if n == 0 { return 0 }; return Sum(n - 1) }\<close>\<close>

definition variadicDecl :: decl where
  "variadicDecl =
     FuncDecl ''Sum''
       [Field [''n''] intT, Field [''rest''] (OtherExpr ''Ellipsis'' [ExprNode intT])]
       (Some [IfStmt None (BinaryExpr (Ident ''n'') EQL (BasicLit 0)) [ReturnStmt [BasicLit 0]] None,
              ReturnStmt [CallExpr (Ident ''Sum'') [BinaryExpr (Ident ''n'') SUB (BasicLit 1)]]])"

text \<open>A function whose parameter has no name, with \<^verbatim>\<open>done\<close> a variable of the package:
  \<^verbatim>\<open>func F(int) int { if done == 0 { return 0 }; return F(1) }\<close>\<close>

definition unnamedDecl :: decl where
  "unnamedDecl =
     FuncDecl ''F'' [Field [] intT]
       (Some [IfStmt None (BinaryExpr (Ident ''done'') EQL (BasicLit 0)) [ReturnStmt [BasicLit 0]] None,
              ReturnStmt [CallExpr (Ident ''F'') [BasicLit 1]]])"

text \<open>Two returns of a call of the function itself:
  \<^verbatim>\<open>func F(n int, acc int) int { if n == 0 { return acc }; if n == 1 { return F(0, acc+1) }; return F(n-2, acc+2) }\<close>\<close>

definition firstRet :: stmt where
  "firstRet =
     ReturnStmt [CallExpr (Ident ''F'') [BasicLit 0, BinaryExpr (Ident ''acc'') ADD (BasicLit 1)]]"

definition lastRet :: stmt where
  "lastRet =
     ReturnStmt [CallExpr (Ident ''F'')
       [BinaryExpr (Ident ''n'') SUB (BasicLit 2), BinaryExpr (Ident ''acc'') ADD (BasicLit 2)]]"

definition twoCallsBody :: "stmt list" where
  "twoCallsBody =
     [IfStmt None (BinaryExpr (Ident ''n'') EQL (BasicLit 0)) [ReturnStmt [Ident ''acc'']] None,
      IfStmt None (BinaryExpr (Ident ''n'') EQL (BasicLit 1)) [firstRet] None,
      lastRet]"

text \<open>A base step that does not begin with a return statement:
  \<^verbatim>\<open>func F(n int) int { if n == 0 { println(); return 0 }; return F(n - 1) }\<close>\<close>

definition printDecl :: decl where
  "printDecl =
     FuncDecl ''F'' [Field [''n''] intT]
       (Some [IfStmt None (BinaryExpr (Ident ''n'') EQL (BasicLit 0))
                [ExprStmt (CallExpr (Ident ''println'') []), ReturnStmt [BasicLit 0]] None,
              ReturnStmt [CallExpr (Ident ''F'') [BinaryExpr (Ident ''n'') SUB (BasicLit 1)]]])"

text \<open>A return of a call of the function at the top of the body that is not the one the
  detector reports:
  \<^verbatim>\<open>func F(n int) int { if n == 0 { return 0 }; if n > 5 { goto big }; return F(n - 1); big: return F(n - 2) }\<close>\<close>

definition gotoGuard :: stmt where
  "gotoGuard = IfStmt None (BinaryExpr (Ident ''n'') EQL (BasicLit 0)) [ReturnStmt [BasicLit 0]] None"

definition gotoJump :: stmt where
  "gotoJump =
     IfStmt None (BinaryExpr (Ident ''n'') GTR (BasicLit 5))
       [OtherStmt ''BranchStmt'' [ExprNode (Ident ''big'')]] None"

definition gotoSmall :: stmt where
  "gotoSmall = ReturnStmt [CallExpr (Ident ''F'') [BinaryExpr (Ident ''n'') SUB (BasicLit 1)]]"

definition gotoBig :: stmt where
  "gotoBig = ReturnStmt [CallExpr (Ident ''F'') [BinaryExpr (Ident ''n'') SUB (BasicLit 2)]]"

definition gotoLabeled :: stmt where
  "gotoLabeled = OtherStmt ''LabeledStmt'' [ExprNode (Ident ''big''), StmtNode gotoBig]"

definition gotoDecl :: decl where
  "gotoDecl =
     FuncDecl ''F'' [Field [''n''] intT] (Some [gotoGuard, gotoJump, gotoSmall, gotoLabeled])"

text \<open>A parameter that has the name of a temporary:
  \<^verbatim>\<open>func F(a int, tmpa int) int { if a == 0 { return tmpa }; return F(tmpa, a) }\<close>\<close>

definition collideBody :: "stmt list" where
  "collideBody =
     [IfStmt None (BinaryExpr (Ident ''a'') EQL (BasicLit 0)) [ReturnStmt [Ident ''tmpa'']] None,
      ReturnStmt [CallExpr (Ident ''F'') [Ident ''tmpa'', Ident ''a'']]]"

definition collideDecl :: decl where
  "collideDecl = FuncDecl ''F'' [Field [''a''] intT, Field [''tmpa''] intT] (Some collideBody)"

text \<open>The result of the loop followed by \<^verbatim>\<open>return x\<close>, from the result of the loop.\<close>

definition afterLoop :: "flow option \<Rightarrow> string \<Rightarrow> flow option" where
  "afterLoop r x =
     (case r of Some (Next env') \<Rightarrow> map_option Returned (env' x) | _ \<Rightarrow> r)"

section \<open>The condition of the loop\<close>

text \<open>Unfolding the definitions evaluates the rewrite of a given declaration.\<close>

lemmas rewrite_eval =
  rewriteDecl_def findTailRecursionReturn_def visit_def baseIf_def makeAssignStmts_def
  callArgs_def loopCond_def nonRecursiveStmts_def isSelfCallReturn_def baseReturn_def Let_def

text \<open>
  C8. The condition of the loop is the condition of the base step with \<open>==\<close> turned
  into \<open>!=\<close> and \<open>!=\<close> into \<open>==\<close>, on the same operands; a binary expression with any
  other operator and a condition that is not a binary expression are taken as they are.
  So the guard \<open>x == 0\<close> gives the loop condition \<open>x != 0\<close>, and \<open>x != 0\<close> gives \<open>x == 0\<close>.
  The loop of every rewritten function has this condition, made from the condition of the
  if statement that begins the body.
\<close>

theorem loopCond_negates:
  "loopCond (BinaryExpr x EQL y) = BinaryExpr x NEQ y \<and>
   loopCond (BinaryExpr x NEQ y) = BinaryExpr x EQL y \<and>
   (op \<noteq> EQL \<and> op \<noteq> NEQ \<longrightarrow> loopCond (BinaryExpr x op y) = BinaryExpr x op y) \<and>
   ((\<forall>l o' r. c \<noteq> BinaryExpr l o' r) \<longrightarrow> loopCond c = c) \<and>
   loopCond (BinaryExpr (Ident v) EQL (BasicLit 0)) = BinaryExpr (Ident v) NEQ (BasicLit 0) \<and>
   loopCond (BinaryExpr (Ident v) NEQ (BasicLit 0)) = BinaryExpr (Ident v) EQL (BasicLit 0) \<and>
   (rewriteDecl (FuncDecl f params (Some (IfStmt init guard ifBody els # rest))) =
      Inr (NewBody loop ret) \<longrightarrow>
    (\<exists>lb. loop = ForStmt None (Some (loopCond guard)) None lb))"
proof (intro conjI impI)
  show "loopCond (BinaryExpr x EQL y) = BinaryExpr x NEQ y"
    by (simp add: loopCond_def)
  show "loopCond (BinaryExpr x NEQ y) = BinaryExpr x EQL y"
    by (simp add: loopCond_def)
  show "loopCond (BinaryExpr x op y) = BinaryExpr x op y" if "op \<noteq> EQL \<and> op \<noteq> NEQ"
    using that by (cases op) (simp_all add: loopCond_def)
  show "loopCond c = c" if "\<forall>l o' r. c \<noteq> BinaryExpr l o' r"
    using that by (cases c) (simp_all add: loopCond_def)
  show "loopCond (BinaryExpr (Ident v) EQL (BasicLit 0)) = BinaryExpr (Ident v) NEQ (BasicLit 0)"
    by (simp add: loopCond_def)
  show "loopCond (BinaryExpr (Ident v) NEQ (BasicLit 0)) = BinaryExpr (Ident v) EQL (BasicLit 0)"
    by (simp add: loopCond_def)
  show "\<exists>lb. loop = ForStmt None (Some (loopCond guard)) None lb"
    if "rewriteDecl (FuncDecl f params (Some (IfStmt init guard ifBody els # rest))) =
      Inr (NewBody loop ret)"
    using that
    by (auto simp: rewriteDecl_def baseIf_def split: option.splits sum.splits prod.splits)
qed

theorem loopCond_negates_witness:
  "(LSS \<noteq> EQL \<and> LSS \<noteq> NEQ) \<and>
   (\<forall>l o' r. Ident ''done'' \<noteq> BinaryExpr l o' r) \<and>
   loopCond (BinaryExpr (Ident ''n'') LSS (BasicLit 1)) = BinaryExpr (Ident ''n'') LSS (BasicLit 1) \<and>
   loopCond (Ident ''done'') = Ident ''done'' \<and>
   rewriteDecl (FuncDecl ''F'' [Field [''n''] intT]
       (Some (IfStmt None (BinaryExpr (Ident ''n'') EQL (BasicLit 0)) [ReturnStmt [BasicLit 0]] None #
              [ReturnStmt [CallExpr (Ident ''F'') [BinaryExpr (Ident ''n'') SUB (BasicLit 1)]]]))) =
     Inr (NewBody
       (ForStmt None (Some (BinaryExpr (Ident ''n'') NEQ (BasicLit 0))) None
          [AssignStmt [Ident ''tmpn''] DEFINE [BinaryExpr (Ident ''n'') SUB (BasicLit 1)],
           AssignStmt [Ident ''n''] ASSIGN [Ident ''tmpn'']])
       (Some (ReturnStmt [BasicLit 0]))) \<and>
   (\<exists>lb. ForStmt None (Some (BinaryExpr (Ident ''n'') NEQ (BasicLit 0))) None
            [AssignStmt [Ident ''tmpn''] DEFINE [BinaryExpr (Ident ''n'') SUB (BasicLit 1)],
             AssignStmt [Ident ''n''] ASSIGN [Ident ''tmpn'']] =
          ForStmt None (Some (loopCond (BinaryExpr (Ident ''n'') EQL (BasicLit 0)))) None lb)"
proof -
  have h: "rewriteDecl (FuncDecl ''F'' [Field [''n''] intT]
       (Some (IfStmt None (BinaryExpr (Ident ''n'') EQL (BasicLit 0)) [ReturnStmt [BasicLit 0]] None #
              [ReturnStmt [CallExpr (Ident ''F'') [BinaryExpr (Ident ''n'') SUB (BasicLit 1)]]]))) =
     Inr (NewBody
       (ForStmt None (Some (BinaryExpr (Ident ''n'') NEQ (BasicLit 0))) None
          [AssignStmt [Ident ''tmpn''] DEFINE [BinaryExpr (Ident ''n'') SUB (BasicLit 1)],
           AssignStmt [Ident ''n''] ASSIGN [Ident ''tmpn'']])
       (Some (ReturnStmt [BasicLit 0])))"
    by (simp add: rewrite_eval)
  note t = loopCond_negates [where x = "Ident ''n''" and y = "BasicLit 1" and op = LSS
      and c = "Ident ''done''" and f = "''F''" and params = "[Field [''n''] intT]" and init = None
      and guard = "BinaryExpr (Ident ''n'') EQL (BasicLit 0)" and ifBody = "[ReturnStmt [BasicLit 0]]"
      and els = None
      and rest = "[ReturnStmt [CallExpr (Ident ''F'') [BinaryExpr (Ident ''n'') SUB (BasicLit 1)]]]"
      and loop = "ForStmt None (Some (BinaryExpr (Ident ''n'') NEQ (BasicLit 0))) None
          [AssignStmt [Ident ''tmpn''] DEFINE [BinaryExpr (Ident ''n'') SUB (BasicLit 1)],
           AssignStmt [Ident ''n''] ASSIGN [Ident ''tmpn'']]"
      and ret = "Some (ReturnStmt [BasicLit 0])"]
  note c3 = t [THEN conjunct2, THEN conjunct2, THEN conjunct1]
  note c4 = t [THEN conjunct2, THEN conjunct2, THEN conjunct2, THEN conjunct1]
  note c7 = t [THEN conjunct2, THEN conjunct2, THEN conjunct2, THEN conjunct2, THEN conjunct2,
      THEN conjunct2]
  have a: "LSS \<noteq> EQL \<and> LSS \<noteq> NEQ" by simp
  have b: "\<forall>l o' r. Ident ''done'' \<noteq> BinaryExpr l o' r" by simp
  from a b c3 [THEN mp, OF a] c4 [THEN mp, OF b] h c7 [THEN mp, OF h]
  show ?thesis by blast
qed

section \<open>What makeAssignStmts returns\<close>

lemma stageLoop_ok_iff:
  "(\<exists>r. stageLoop ps i args acc = Inr r) \<longleftrightarrow> (\<forall>j<length ps. named (ps ! j) \<longrightarrow> i + j < length args)"
proof (induction ps arbitrary: i acc)
  case Nil
  then show ?case by (cases acc) simp
next
  case (Cons p ps)
  obtain stmts tmps where acc: "acc = (stmts, tmps)" by (cases acc)
  have split: "(\<forall>j<length (p # ps). named ((p # ps) ! j) \<longrightarrow> i + j < length args) \<longleftrightarrow>
     (named p \<longrightarrow> i < length args) \<and> (\<forall>j<length ps. named (ps ! j) \<longrightarrow> Suc i + j < length args)"
    by (simp add: All_less_Suc2)
  show ?case
  proof (cases "named p")
    case False
    then have "stageLoop (p # ps) i args acc = stageLoop ps (Suc i) args acc"
      by (simp add: acc named_def)
    then show ?thesis using Cons.IH [of "Suc i" acc] False split by simp
  next
    case True
    show ?thesis
    proof (cases "i < length args")
      case False
      then have "stageLoop (p # ps) i args acc = Inl IndexOutOfRange"
        using True by (simp add: acc named_def Let_def)
      then show ?thesis using True False split by simp
    next
      case i: True
      define acc' where "acc' = (stmts @ [AssignStmt [Ident (''tmp'' @ Names p ! 0)] DEFINE [args ! i]],
         tmps @ [Ident (''tmp'' @ Names p ! 0)])"
      have "stageLoop (p # ps) i args acc = stageLoop ps (Suc i) args acc'"
        using True i by (simp add: acc named_def Let_def acc'_def)
      then show ?thesis using Cons.IH [of "Suc i" acc'] True i split by simp
    qed
  qed
qed

lemma stageLoop_Inr:
  "stageLoop ps i args (stmts, tmps) = Inr r \<Longrightarrow>
   r = (stmts @ map declStmt (filter (\<lambda>pa. named (fst pa)) (zip ps (drop i args))),
        tmps @ map (\<lambda>p. Ident (tmpName p)) (filter named ps))"
proof (induction ps arbitrary: i stmts tmps)
  case Nil
  then show ?case by simp
next
  case (Cons p ps)
  show ?case
  proof (cases "named p")
    case False
    then have "stageLoop ps (i + 1) args (stmts, tmps) = Inr r"
      using Cons.prems by (simp add: named_def)
    from Cons.IH [OF this] have r: "r = (stmts @ map declStmt (filter (\<lambda>pa. named (fst pa)) (zip ps (tl (drop i args)))),
        tmps @ map (\<lambda>p. Ident (tmpName p)) (filter named ps))"
      by (simp add: drop_Suc drop_tl)
    show ?thesis
      using False by (cases "drop i args") (simp_all add: r)
  next
    case True
    then have i: "i < length args"
      using Cons.prems by (auto simp: named_def Let_def split: if_splits)
    then have "stageLoop ps (i + 1) args
        (stmts @ [AssignStmt [Ident (''tmp'' @ Names p ! 0)] DEFINE [args ! i]],
         tmps @ [Ident (''tmp'' @ Names p ! 0)]) = Inr r"
      using Cons.prems True by (simp add: named_def Let_def)
    from Cons.IH [OF this] True i show ?thesis
      by (simp add: Cons_nth_drop_Suc [symmetric] declStmt_def tmpName_def firstName_def)
  qed
qed


lemma assignLoop_ok_iff:
  "(\<exists>r. assignLoop ps i tmps acc = Inr r) \<longleftrightarrow> (\<forall>j<length ps. named (ps ! j) \<longrightarrow> i + j < length tmps)"
proof (induction ps arbitrary: i acc)
  case Nil
  then show ?case by (cases acc) simp
next
  case (Cons p ps)
  obtain lhs rhs where acc: "acc = (lhs, rhs)" by (cases acc)
  have split: "(\<forall>j<length (p # ps). named ((p # ps) ! j) \<longrightarrow> i + j < length tmps) \<longleftrightarrow>
     (named p \<longrightarrow> i < length tmps) \<and> (\<forall>j<length ps. named (ps ! j) \<longrightarrow> Suc i + j < length tmps)"
    by (simp add: All_less_Suc2)
  show ?case
  proof (cases "named p")
    case False
    then have "assignLoop (p # ps) i tmps acc = assignLoop ps (Suc i) tmps acc"
      by (simp add: acc named_def)
    then show ?thesis using Cons.IH [of "Suc i" acc] False split by simp
  next
    case True
    show ?thesis
    proof (cases "i < length tmps")
      case False
      then have "assignLoop (p # ps) i tmps acc = Inl IndexOutOfRange"
        using True by (simp add: acc named_def)
      then show ?thesis using True False split by simp
    next
      case i: True
      define acc' where "acc' = (lhs @ [Ident (Names p ! 0)], rhs @ [tmps ! i])"
      have "assignLoop (p # ps) i tmps acc = assignLoop ps (Suc i) tmps acc'"
        using True i by (simp add: acc named_def acc'_def)
      then show ?thesis using Cons.IH [of "Suc i" acc'] True i split by simp
    qed
  qed
qed

lemma assignLoop_Inr:
  "assignLoop ps i tmps (lhs, rhs) = Inr r \<Longrightarrow>
   r = (lhs @ map (\<lambda>p. Ident (firstName p)) (filter named ps),
        rhs @ map snd (filter (\<lambda>pa. named (fst pa)) (zip ps (drop i tmps))))"
proof (induction ps arbitrary: i lhs rhs)
  case Nil
  then show ?case by simp
next
  case (Cons p ps)
  show ?case
  proof (cases "named p")
    case False
    then have "assignLoop ps (i + 1) tmps (lhs, rhs) = Inr r"
      using Cons.prems by (simp add: named_def)
    from Cons.IH [OF this]
    have r: "r = (lhs @ map (\<lambda>p. Ident (firstName p)) (filter named ps),
        rhs @ map snd (filter (\<lambda>pa. named (fst pa)) (zip ps (tl (drop i tmps)))))"
      by (simp add: drop_Suc drop_tl)
    show ?thesis
      using False by (cases "drop i tmps") (simp_all add: r)
  next
    case True
    then have i: "i < length tmps"
      using Cons.prems by (auto simp: named_def split: if_splits)
    then have "assignLoop ps (i + 1) tmps (lhs @ [Ident (Names p ! 0)], rhs @ [tmps ! i]) = Inr r"
      using Cons.prems True by (simp add: named_def)
    from Cons.IH [OF this] True i show ?thesis
      by (simp add: Cons_nth_drop_Suc [symmetric] firstName_def)
  qed
qed

text \<open>When every named field has an index below the number of named fields, the named
  fields are the first fields of the list.\<close>

lemma named_prefix:
  "(\<forall>j<length ps. named (ps ! j) \<longrightarrow> j < length (filter named ps)) \<Longrightarrow>
   filter named ps = take (length (filter named ps)) ps"
proof (induction ps rule: rev_induct)
  case Nil
  then show ?case by simp
next
  case (snoc p ps)
  show ?case
  proof (cases "named p")
    case True
    from snoc.prems [rule_format, of "length ps"] True
    have "length ps \<le> length (filter named ps)" by simp
    then have "length (filter named ps) = length ps"
      using length_filter_le [of named ps] by simp
    then have "\<forall>x\<in>set ps. named x"
      using length_filter_less [of _ ps named] by force
    then have "filter named ps = ps" by simp
    then show ?thesis using True by simp
  next
    case False
    have "\<forall>j<length ps. named (ps ! j) \<longrightarrow> j < length (filter named ps)"
    proof (intro allI impI)
      fix j assume j: "j < length ps" and n: "named (ps ! j)"
      from snoc.prems [rule_format, of j] j n False show "j < length (filter named ps)"
        by (simp add: nth_append)
    qed
    from snoc.IH [OF this] False show ?thesis
      using length_filter_le [of named ps] by simp
  qed
qed

lemma zip_take_right: "length as \<le> n \<Longrightarrow> zip as (take n bs) = zip as bs"
proof (induction as arbitrary: n bs)
  case Nil
  then show ?case by simp
next
  case (Cons a as)
  then obtain m where n: "n = Suc m" by (cases n) auto
  with Cons show ?case by (cases bs) simp_all
qed

lemma zip_named_prefix:
  assumes pre: "filter named ps = take k ps" and k: "k = length (filter named ps)"
  shows "filter (\<lambda>pa. named (fst pa)) (zip ps (xs :: 'b list)) = zip (filter named ps) xs"
proof -
  have un: "filter named (drop k ps) = []"
  proof -
    have "filter named ps = filter named (take k ps) @ filter named (drop k ps)"
      using filter_append [of named "take k ps" "drop k ps"] by simp
    moreover have "filter named (take k ps) = take k ps"
      by (simp add: pre [symmetric])
    ultimately show ?thesis using pre by simp
  qed
  have al: "\<forall>p\<in>set (take k ps). named p"
    by (simp add: pre [symmetric])
  have kl: "length (take k ps) = k"
    using k length_filter_le [of named ps] by simp
  have "zip (take k ps @ drop k ps) xs =
      zip (take k ps) (take (length (take k ps)) xs) @ zip (drop k ps) (drop (length (take k ps)) xs)"
    by (rule zip_append1)
  then have "zip ps xs = zip (take k ps) (take k xs) @ zip (drop k ps) (drop k xs)"
    unfolding kl by simp
  then have z: "filter (\<lambda>pa. named (fst pa)) (zip ps xs) =
      filter (\<lambda>pa. named (fst pa)) (zip (take k ps) (take k xs)) @
      filter (\<lambda>pa. named (fst pa)) (zip (drop k ps) (drop k xs))"
    by simp
  have a: "filter (\<lambda>pa. named (fst pa)) (zip (take k ps) ys) = zip (take k ps) ys" for ys :: "'b list"
    using al by (auto simp: filter_id_conv dest: set_zip_leftD)
  have b: "filter (\<lambda>pa. named (fst pa)) (zip (drop k ps) ys) = []" for ys :: "'b list"
    using un by (auto simp: filter_empty_conv dest: set_zip_leftD)
  have c: "zip (take k ps) (take k xs) = zip (take k ps) xs"
    by (rule zip_take_right) simp
  show ?thesis unfolding z a b c using pre by simp
qed


lemma stageLoop_Inl: "stageLoop ps i args acc = Inl e \<Longrightarrow> e = IndexOutOfRange"
proof (induction ps arbitrary: i acc)
  case Nil
  then show ?case by (cases acc) simp
next
  case (Cons p ps)
  obtain stmts tmps where acc: "acc = (stmts, tmps)" by (cases acc)
  from Cons.prems show ?case
    unfolding acc by (auto simp: Let_def split: if_splits dest: Cons.IH)
qed

lemma assignLoop_Inl: "assignLoop ps i tmps acc = Inl e \<Longrightarrow> e = IndexOutOfRange"
proof (induction ps arbitrary: i acc)
  case Nil
  then show ?case by (cases acc) simp
next
  case (Cons p ps)
  obtain lhs rhs where acc: "acc = (lhs, rhs)" by (cases acc)
  from Cons.prems show ?case
    unfolding acc by (auto split: if_splits dest: Cons.IH)
qed

lemma panic_only:
  "makeAssignStmts params args = Inl IndexOutOfRange \<or> (\<exists>r. makeAssignStmts params args = Inr r)"
proof (cases "makeAssignStmts params args")
  case (Inl e)
  then have "e = IndexOutOfRange"
    by (auto simp: makeAssignStmts_def split: sum.splits prod.splits
        dest: stageLoop_Inl assignLoop_Inl)
  with Inl show ?thesis by simp
next
  case (Inr r)
  then show ?thesis by simp
qed

lemma makeAssignStmts_ok_iff:
  "(\<exists>ss. makeAssignStmts params args = Inr ss) \<longleftrightarrow>
   (\<forall>j<length params. named (params ! j) \<longrightarrow> j < length args \<and> j < length (filter named params))"
proof
  assume "\<exists>ss. makeAssignStmts params args = Inr ss"
  then obtain ss where ss: "makeAssignStmts params args = Inr ss" ..
  then obtain stmts tmps where st: "stageLoop params 0 args ([], []) = Inr (stmts, tmps)"
    by (auto simp: makeAssignStmts_def split: sum.splits)
  with ss obtain lr where as: "assignLoop params 0 tmps ([], []) = Inr lr"
    by (auto simp: makeAssignStmts_def split: sum.splits)
  from stageLoop_Inr [OF st] have tmps: "tmps = map (\<lambda>p. Ident (tmpName p)) (filter named params)"
    by simp
  from st have a: "\<forall>j<length params. named (params ! j) \<longrightarrow> j < length args"
    using stageLoop_ok_iff [of params 0 args "([], [])"] by auto
  from as have b: "\<forall>j<length params. named (params ! j) \<longrightarrow> j < length tmps"
    using assignLoop_ok_iff [of params 0 tmps "([], [])"] by auto
  from a b show "\<forall>j<length params. named (params ! j) \<longrightarrow> j < length args \<and> j < length (filter named params)"
    by (simp add: tmps)
next
  assume h: "\<forall>j<length params. named (params ! j) \<longrightarrow> j < length args \<and> j < length (filter named params)"
  then have "\<exists>r. stageLoop params 0 args ([], []) = Inr r"
    using stageLoop_ok_iff [of params 0 args "([], [])"] by auto
  then obtain stmts tmps where st: "stageLoop params 0 args ([], []) = Inr (stmts, tmps)"
    by auto
  from stageLoop_Inr [OF st] have tmps: "tmps = map (\<lambda>p. Ident (tmpName p)) (filter named params)"
    by simp
  from h have "\<exists>r. assignLoop params 0 tmps ([], []) = Inr r"
    using assignLoop_ok_iff [of params 0 tmps "([], [])"] by (simp add: tmps)
  then obtain lhs rhs where "assignLoop params 0 tmps ([], []) = Inr (lhs, rhs)" by auto
  with st show "\<exists>ss. makeAssignStmts params args = Inr ss"
    by (simp add: makeAssignStmts_def)
qed

lemma makeAssignStmts_Inr:
  assumes ss: "makeAssignStmts params args = Inr ss"
  shows "ss = map declStmt (zip (filter named params) args) @ [combinedStmt (filter named params)]"
    and "filter named params = take (length (filter named params)) params"
proof -
  from ss have ok: "\<forall>j<length params. named (params ! j) \<longrightarrow> j < length args \<and> j < length (filter named params)"
    using makeAssignStmts_ok_iff [of params args] by blast
  then show pre: "filter named params = take (length (filter named params)) params"
    by (intro named_prefix) simp
  from ss obtain stmts tmps where st: "stageLoop params 0 args ([], []) = Inr (stmts, tmps)"
    by (auto simp: makeAssignStmts_def split: sum.splits)
  with ss obtain lhs rhs where as: "assignLoop params 0 tmps ([], []) = Inr (lhs, rhs)"
    and res: "ss = stmts @ [AssignStmt lhs ASSIGN rhs]"
    by (auto simp: makeAssignStmts_def split: sum.splits)
  from stageLoop_Inr [OF st]
  have stmts: "stmts = map declStmt (zip (filter named params) args)"
    and tmps: "tmps = map (\<lambda>p. Ident (tmpName p)) (filter named params)"
    using zip_named_prefix [OF pre refl, of args] by simp_all
  from assignLoop_Inr [OF as]
  have lhs: "lhs = map (\<lambda>p. Ident (firstName p)) (filter named params)"
    and rhs: "rhs = map snd (zip (filter named params) tmps)"
    using zip_named_prefix [OF pre refl, of tmps] by simp_all
  have "rhs = map (\<lambda>p. Ident (tmpName p)) (filter named params)"
    unfolding rhs tmps by simp
  with res stmts lhs show "ss = map declStmt (zip (filter named params) args) @ [combinedStmt (filter named params)]"
    by (simp add: combinedStmt_def)
qed

text \<open>\<^verbatim>\<open>makeAssignStmts\<close> in closed form: it returns when each named field has an argument
  at its index and no field without names stands before it, and then the statements are
  the declaring assignments of the named fields, paired with the arguments in order,
  and the combined assignment.\<close>

lemma makeAssignStmts_len:
  assumes ss: "makeAssignStmts params args = Inr ss"
  shows "length (filter named params) \<le> length args"
proof (cases "length (filter named params)")
  case 0
  then show ?thesis by simp
next
  case (Suc k)
  let ?N = "filter named params"
  from Suc have k: "k < length ?N" by simp
  have kp: "k < length params" by (rule order_less_le_trans [OF k length_filter_le])
  have "?N ! k = take (length ?N) params ! k" using makeAssignStmts_Inr(2) [OF ss] by simp
  then have "?N ! k = params ! k" using k by simp
  with nth_mem [OF k] have "named (params ! k)" by simp
  with ss kp have "k < length args"
    using makeAssignStmts_ok_iff [of params args] by blast
  with Suc show ?thesis by simp
qed

lemma makeAssignStmts_eq:
  "makeAssignStmts params args =
     (if \<forall>j<length params. named (params ! j) \<longrightarrow> j < length args \<and> j < length (filter named params)
      then Inr (map declStmt (zip (filter named params) args) @ [combinedStmt (filter named params)])
      else Inl IndexOutOfRange)"
proof (cases "\<exists>ss. makeAssignStmts params args = Inr ss")
  case True
  then obtain ss where ss: "makeAssignStmts params args = Inr ss" ..
  from makeAssignStmts_Inr(1) [OF ss] ss makeAssignStmts_ok_iff [of params args]
  show ?thesis by auto
next
  case False
  with panic_only [of params args] makeAssignStmts_ok_iff [of params args]
  show ?thesis by auto
qed

lemma targets_declStmt:
  "concat (map targets (map declStmt zs)) = map (\<lambda>pa. Ident (tmpName (fst pa))) zs"
  by (induction zs) (simp_all add: declStmt_def)

section \<open>Fewer arguments than parameters\<close>

text \<open>
  The variadic function \<^verbatim>\<open>Sum(n int, rest ...int)\<close> calls itself as \<^verbatim>\<open>Sum(n - 1)\<close>: one
  argument for two named fields. The first loop of \<^verbatim>\<open>makeAssignStmts\<close> reads \<^verbatim>\<open>args[1]\<close>
  and the program stops; no matched-length prefix is staged.
\<close>

theorem short_call_counterexample:
  "makeAssignStmts [Field [''n''] intT, Field [''rest''] (OtherExpr ''Ellipsis'' [ExprNode intT])]
     [BinaryExpr (Ident ''n'') SUB (BasicLit 1)] = Inl IndexOutOfRange \<and>
   rewriteDecl variadicDecl = Inl IndexOutOfRange"
  by (simp add: variadicDecl_def rewrite_eval)

text \<open>
  C4, as the code has it. When a named parameter field has no argument at its index the
  staging step stops with an index out of range, and so does the rewrite of a function
  whose detected call has these arguments and whose first statement is an if statement.
  When every field is named and the call has at least as many arguments as there are
  fields, the staging step returns; each field is paired with the argument at its index
  and the arguments beyond the fields are dropped.
\<close>

theorem staging_needs_every_argument:
  "(j < length params \<and> named (params ! j) \<and> length args \<le> j \<longrightarrow>
      makeAssignStmts params args = Inl IndexOutOfRange \<and>
      (findTailRecursionReturn f body = Some (r, CallExpr g args) \<and> baseIf body \<noteq> None \<longrightarrow>
         rewriteDecl (FuncDecl f params (Some body)) = Inl IndexOutOfRange)) \<and>
   ((\<forall>p\<in>set params. named p) \<and> length params \<le> length args \<longrightarrow>
      makeAssignStmts params args = Inr (map declStmt (zip params args) @ [combinedStmt params]))"
proof (intro conjI impI)
  assume h: "j < length params \<and> named (params ! j) \<and> length args \<le> j"
  then have "\<not> (\<forall>j<length params. named (params ! j) \<longrightarrow> j < length args \<and> j < length (filter named params))"
    by auto
  then show m: "makeAssignStmts params args = Inl IndexOutOfRange"
    by (simp only: makeAssignStmts_eq if_False)
  assume "findTailRecursionReturn f body = Some (r, CallExpr g args) \<and> baseIf body \<noteq> None"
  with m show "rewriteDecl (FuncDecl f params (Some body)) = Inl IndexOutOfRange"
    by (auto simp: rewriteDecl_def callArgs_def)
next
  assume h: "(\<forall>p\<in>set params. named p) \<and> length params \<le> length args"
  then have f: "filter named params = params" by simp
  with h show "makeAssignStmts params args = Inr (map declStmt (zip params args) @ [combinedStmt params])"
    by (simp add: makeAssignStmts_eq)
qed

theorem staging_needs_every_argument_witness:
  "((1::nat) < length (Params variadicDecl) \<and> named (Params variadicDecl ! 1) \<and>
      length [BinaryExpr (Ident ''n'') SUB (BasicLit 1)] \<le> (1::nat)) \<and>
   makeAssignStmts (Params variadicDecl) [BinaryExpr (Ident ''n'') SUB (BasicLit 1)] = Inl IndexOutOfRange \<and>
   findTailRecursionReturn ''Sum'' (the (Body variadicDecl)) =
     Some (ReturnStmt [CallExpr (Ident ''Sum'') [BinaryExpr (Ident ''n'') SUB (BasicLit 1)]],
           CallExpr (Ident ''Sum'') [BinaryExpr (Ident ''n'') SUB (BasicLit 1)]) \<and>
   baseIf (the (Body variadicDecl)) \<noteq> None \<and>
   rewriteDecl (FuncDecl ''Sum'' (Params variadicDecl) (Some (the (Body variadicDecl)))) =
     Inl IndexOutOfRange \<and>
   named (Field [''n''] intT) \<and>
   length [Field [''n''] intT] \<le> length [BasicLit 1, BasicLit 2] \<and>
   makeAssignStmts [Field [''n''] intT] [BasicLit 1, BasicLit 2] =
     Inr [AssignStmt [Ident ''tmpn''] DEFINE [BasicLit 1], AssignStmt [Ident ''n''] ASSIGN [Ident ''tmpn'']]"
proof -
  let ?args = "[BinaryExpr (Ident ''n'') SUB (BasicLit 1)]"
  let ?ret = "ReturnStmt [CallExpr (Ident ''Sum'') ?args]"
  have h1: "(1::nat) < length (Params variadicDecl) \<and> named (Params variadicDecl ! 1) \<and>
      length ?args \<le> (1::nat)"
    by (simp add: variadicDecl_def named_def)
  have h2: "findTailRecursionReturn ''Sum'' (the (Body variadicDecl)) =
      Some (?ret, CallExpr (Ident ''Sum'') ?args) \<and> baseIf (the (Body variadicDecl)) \<noteq> None"
    by (simp add: variadicDecl_def findTailRecursionReturn_def visit_def baseIf_def)
  have h3: "(\<forall>p\<in>set [Field [''n''] intT]. named p) \<and>
      length [Field [''n''] intT] \<le> length [BasicLit 1, BasicLit 2]"
    by (simp add: named_def)
  note t1 = staging_needs_every_argument [where j = 1 and params = "Params variadicDecl"
      and args = ?args and f = "''Sum''" and body = "the (Body variadicDecl)" and r = ?ret
      and g = "Ident ''Sum''", THEN conjunct1, THEN mp, OF h1]
  note t2 = staging_needs_every_argument [where params = "[Field [''n''] intT]"
      and args = "[BasicLit 1, BasicLit 2]", THEN conjunct2, THEN mp, OF h3]
  have c: "map declStmt (zip [Field [''n''] intT] [BasicLit 1, BasicLit 2]) @
      [combinedStmt [Field [''n''] intT]] =
      [AssignStmt [Ident ''tmpn''] DEFINE [BasicLit 1], AssignStmt [Ident ''n''] ASSIGN [Ident ''tmpn'']]"
    by (simp add: declStmt_def combinedStmt_def tmpName_def firstName_def)
  have n: "named (Field [''n''] intT)" by (simp add: named_def)
  from h1 h2 t1 [THEN conjunct1] t1 [THEN conjunct2, THEN mp, OF h2] n t2 [unfolded c]
  show ?thesis by simp
qed

section \<open>Unnamed parameters\<close>

lemma unnamed_staging:
  assumes "\<forall>p\<in>set params. \<not> named p"
  shows "makeAssignStmts params args = Inr [AssignStmt [] ASSIGN []]"
proof -
  from assms have f: "filter named params = []"
    by (simp add: filter_empty_conv)
  from assms have "\<forall>j<length params. \<not> named (params ! j)"
    by simp
  then show ?thesis
    by (simp add: makeAssignStmts_eq f combinedStmt_def)
qed

text \<open>
  C5. The parameters of a function of Go are all named or all unnamed, so a parameter
  list with a field without names has no named field. Both loops of \<^verbatim>\<open>makeAssignStmts\<close>
  pass over every field of such a list, but the combined assignment is appended all the
  same (line 95), without left-hand side and without right-hand side. When the function
  is rewritten it is the first statement of the new loop, and the printer stops on it
  with an index out of range: a function with a return of a call of itself and an if
  statement at the start of its body stops the program, and nothing is printed.
\<close>

theorem unnamed_params_fault:
  "(\<forall>p\<in>set params. \<not> named p) \<longrightarrow>
     makeAssignStmts params args = Inr [AssignStmt [] ASSIGN []] \<and>
     (rewriteDecl (FuncDecl f params (Some body)) = Inr (NewBody loop ret) \<longrightarrow>
        printOutcome (NewBody loop ret) = Some IndexOutOfRange) \<and>
     (findTailRecursionReturn f body \<noteq> None \<and> baseIf body \<noteq> None \<longrightarrow>
        (\<exists>loop ret. rewriteDecl (FuncDecl f params (Some body)) = Inr (NewBody loop ret)) \<and>
        mainProgram [FuncDecl f params (Some body)] = Inl IndexOutOfRange)"
proof (intro impI conjI)
  assume u: "\<forall>p\<in>set params. \<not> named p"
  show "makeAssignStmts params args = Inr [AssignStmt [] ASSIGN []]"
    by (rule unnamed_staging [OF u])
  have p: "printOutcome (NewBody (ForStmt None c None (AssignStmt [] ASSIGN [] # rest)) r) =
      Some IndexOutOfRange" for c rest r
    by (simp add: printOutcome_def posPanic_def List.map_filter_simps)
  {
    assume "rewriteDecl (FuncDecl f params (Some body)) = Inr (NewBody loop ret)"
    then obtain c rest where "loop = ForStmt None c None (AssignStmt [] ASSIGN [] # rest)"
      by (auto simp: rewriteDecl_def unnamed_staging [OF u] split: option.splits prod.splits)
    then show "printOutcome (NewBody loop ret) = Some IndexOutOfRange"
      by (simp only: p)
  }
  {
    assume "findTailRecursionReturn f body \<noteq> None \<and> baseIf body \<noteq> None"
    then obtain tailRet call c ifBody where
      "findTailRecursionReturn f body = Some (tailRet, call)" and "baseIf body = Some (c, ifBody)"
      by auto
    then have r: "rewriteDecl (FuncDecl f params (Some body)) =
        Inr (NewBody (ForStmt None (Some (loopCond c)) None
               (AssignStmt [] ASSIGN [] # nonRecursiveStmts f body)) (baseReturn ifBody))"
      by (simp add: rewriteDecl_def unnamed_staging [OF u])
    then show "\<exists>loop ret. rewriteDecl (FuncDecl f params (Some body)) = Inr (NewBody loop ret)"
      by blast
    show "mainProgram [FuncDecl f params (Some body)] = Inl IndexOutOfRange"
      by (simp add: mainProgram_def r p List.map_filter_simps)
  }
qed

theorem unnamed_params_fault_witness:
  "\<not> named (Field [] intT) \<and>
   makeAssignStmts [Field [] intT] [BasicLit 1] = Inr [AssignStmt [] ASSIGN []] \<and>
   findTailRecursionReturn ''F''
     [IfStmt None (BinaryExpr (Ident ''done'') EQL (BasicLit 0)) [ReturnStmt [BasicLit 0]] None,
      ReturnStmt [CallExpr (Ident ''F'') [BasicLit 1]]] \<noteq> None \<and>
   baseIf
     [IfStmt None (BinaryExpr (Ident ''done'') EQL (BasicLit 0)) [ReturnStmt [BasicLit 0]] None,
      ReturnStmt [CallExpr (Ident ''F'') [BasicLit 1]]] \<noteq> None \<and>
   rewriteDecl unnamedDecl =
     Inr (NewBody
       (ForStmt None (Some (BinaryExpr (Ident ''done'') NEQ (BasicLit 0))) None
          [AssignStmt [] ASSIGN []])
       (Some (ReturnStmt [BasicLit 0]))) \<and>
   printOutcome (NewBody
       (ForStmt None (Some (BinaryExpr (Ident ''done'') NEQ (BasicLit 0))) None
          [AssignStmt [] ASSIGN []])
       (Some (ReturnStmt [BasicLit 0]))) = Some IndexOutOfRange \<and>
   mainProgram [unnamedDecl] = Inl IndexOutOfRange"
proof -
  let ?body = "[IfStmt None (BinaryExpr (Ident ''done'') EQL (BasicLit 0)) [ReturnStmt [BasicLit 0]] None,
      ReturnStmt [CallExpr (Ident ''F'') [BasicLit 1]]]"
  let ?loop = "ForStmt None (Some (BinaryExpr (Ident ''done'') NEQ (BasicLit 0))) None
      [AssignStmt [] ASSIGN []]"
  have u: "\<forall>p\<in>set [Field [] intT]. \<not> named p"
    by (simp add: named_def)
  have n: "\<not> named (Field [] intT)"
    by (simp add: named_def)
  have d: "findTailRecursionReturn ''F'' ?body \<noteq> None \<and> baseIf ?body \<noteq> None"
    by (simp add: rewrite_eval)
  have r: "rewriteDecl (FuncDecl ''F'' [Field [] intT] (Some ?body)) =
      Inr (NewBody ?loop (Some (ReturnStmt [BasicLit 0])))"
    by (simp add: rewrite_eval)
  note t = unnamed_params_fault [where params = "[Field [] intT]" and args = "[BasicLit 1]"
      and f = "''F''" and body = ?body and loop = ?loop and ret = "Some (ReturnStmt [BasicLit 0])",
      THEN mp, OF u]
  note t1 = t [THEN conjunct1]
  note t2 = t [THEN conjunct2, THEN conjunct1, THEN mp, OF r]
  note t3 = t [THEN conjunct2, THEN conjunct2, THEN mp, OF d, THEN conjunct2]
  from n t1 d r t2 t3 show ?thesis
    unfolding unnamedDecl_def by blast
qed

section \<open>Fields that declare several names\<close>

text \<open>
  C10. The staging step works field by field. When it returns, the statements are one
  declaring assignment per named field and the combined assignment; the declaring
  assignment of the field at index \<open>i\<close> takes its temporary from the first name of that
  field and its value from the argument at index \<open>i\<close>; and the only expressions assigned
  to are these temporaries and the first names of the named fields, so a later name of a
  field is never reassigned. For one field that declares \<open>a\<close> and \<open>b\<close> and a call with
  two arguments, only \<open>a\<close> is updated, from the first argument; the function
  \<^verbatim>\<open>F(a, b int)\<close> of the swap scenario is rewritten into a loop that updates \<open>a\<close> only.
\<close>

theorem staging_by_field:
  "(makeAssignStmts params args = Inr ss \<longrightarrow>
      length ss = length (filter named params) + 1 \<and>
      (\<forall>i<length (filter named params).
         named (params ! i) \<and>
         ss ! i = AssignStmt [Ident (''tmp'' @ Names (params ! i) ! 0)] DEFINE [args ! i]) \<and>
      concat (map targets ss) =
        map (\<lambda>p. Ident (''tmp'' @ Names p ! 0)) (filter named params) @
        map (\<lambda>p. Ident (Names p ! 0)) (filter named params)) \<and>
   makeAssignStmts [Field [a, b] t] [x, y] =
     Inr [AssignStmt [Ident (''tmp'' @ a)] DEFINE [x], AssignStmt [Ident a] ASSIGN [Ident (''tmp'' @ a)]] \<and>
   rewriteDecl swapGrouped =
     Inr (NewBody
       (ForStmt None (Some (BinaryExpr (Ident ''a'') NEQ (BasicLit 0))) None
          [AssignStmt [Ident ''tmpa''] DEFINE [Ident ''b''],
           AssignStmt [Ident ''a''] ASSIGN [Ident ''tmpa'']])
       (Some (ReturnStmt [Ident ''b''])))"
proof (intro conjI impI)
  assume ss: "makeAssignStmts params args = Inr ss"
  let ?N = "filter named params"
  note shape = makeAssignStmts_Inr(1) [OF ss] and pre = makeAssignStmts_Inr(2) [OF ss]
  have ok: "\<forall>j<length params. named (params ! j) \<longrightarrow> j < length args \<and> j < length ?N"
    using ss makeAssignStmts_ok_iff [of params args] by blast
  have nth: "?N ! i = params ! i" if "i < length ?N" for i
  proof -
    have "?N ! i = take (length ?N) params ! i" using pre by simp
    then show ?thesis using that by simp
  qed
  have nm: "named (params ! i)" if "i < length ?N" for i
    using nth [OF that] nth_mem [OF that] by simp
  have len: "length ?N \<le> length args"
  proof (cases "length ?N")
    case 0
    then show ?thesis by simp
  next
    case (Suc m)
    then have m: "m < length ?N" by simp
    have "m < length params" by (rule order_less_le_trans [OF m length_filter_le])
    with ok nm [OF m] have "m < length args" by blast
    with Suc show ?thesis by simp
  qed
  show "length ss = length ?N + 1"
    using shape len by simp
  show "\<forall>i<length ?N. named (params ! i) \<and>
      ss ! i = AssignStmt [Ident (''tmp'' @ Names (params ! i) ! 0)] DEFINE [args ! i]"
  proof (intro allI impI conjI)
    fix i assume i: "i < length ?N"
    show "named (params ! i)" by (rule nm [OF i])
    have "ss ! i = map declStmt (zip ?N args) ! i"
      using shape i len by (simp add: nth_append)
    also have "\<dots> = declStmt (?N ! i, args ! i)"
      using i len by simp
    finally show "ss ! i = AssignStmt [Ident (''tmp'' @ Names (params ! i) ! 0)] DEFINE [args ! i]"
      using nth [OF i] by (simp add: declStmt_def tmpName_def firstName_def)
  qed
  have "concat (map targets ss) =
      concat (map targets (map declStmt (zip ?N args))) @ targets (combinedStmt ?N)"
    using shape by (simp del: map_map)
  also have "concat (map targets (map declStmt (zip ?N args))) =
      map (\<lambda>pa. Ident (tmpName (fst pa))) (zip ?N args)"
    by (rule targets_declStmt)
  also have "\<dots> = map (\<lambda>p. Ident (tmpName p)) (map fst (zip ?N args))"
    by (simp add: comp_def)
  also have "map fst (zip ?N args) = ?N"
    using len by (simp add: map_fst_zip_take)
  finally show "concat (map targets ss) =
        map (\<lambda>p. Ident (''tmp'' @ Names p ! 0)) ?N @ map (\<lambda>p. Ident (Names p ! 0)) ?N"
    by (simp add: combinedStmt_def tmpName_def firstName_def)
next
  show "makeAssignStmts [Field [a, b] t] [x, y] =
     Inr [AssignStmt [Ident (''tmp'' @ a)] DEFINE [x], AssignStmt [Ident a] ASSIGN [Ident (''tmp'' @ a)]]"
    by (simp add: makeAssignStmts_def Let_def)
next
  show "rewriteDecl swapGrouped =
     Inr (NewBody
       (ForStmt None (Some (BinaryExpr (Ident ''a'') NEQ (BasicLit 0))) None
          [AssignStmt [Ident ''tmpa''] DEFINE [Ident ''b''],
           AssignStmt [Ident ''a''] ASSIGN [Ident ''tmpa'']])
       (Some (ReturnStmt [Ident ''b''])))"
    by (simp add: swapGrouped_def swapBody_def rewrite_eval)
qed

theorem staging_by_field_witness:
  "makeAssignStmts [Field [''a'', ''b''] intT, Field [''c''] intT] [BasicLit 1, BasicLit 2, BasicLit 3] =
     Inr [AssignStmt [Ident ''tmpa''] DEFINE [BasicLit 1],
          AssignStmt [Ident ''tmpc''] DEFINE [BasicLit 2],
          AssignStmt [Ident ''a'', Ident ''c''] ASSIGN [Ident ''tmpa'', Ident ''tmpc'']] \<and>
   concat (map targets
     [AssignStmt [Ident ''tmpa''] DEFINE [BasicLit 1],
      AssignStmt [Ident ''tmpc''] DEFINE [BasicLit 2],
      AssignStmt [Ident ''a'', Ident ''c''] ASSIGN [Ident ''tmpa'', Ident ''tmpc'']]) =
     [Ident ''tmpa'', Ident ''tmpc'', Ident ''a'', Ident ''c'']"
  using staging_by_field [of "[Field [''a'', ''b''] intT, Field [''c''] intT]"
      "[BasicLit 1, BasicLit 2, BasicLit 3]"
      "[AssignStmt [Ident ''tmpa''] DEFINE [BasicLit 1],
        AssignStmt [Ident ''tmpc''] DEFINE [BasicLit 2],
        AssignStmt [Ident ''a'', Ident ''c''] ASSIGN [Ident ''tmpa'', Ident ''tmpc'']]"]
  by (simp add: makeAssignStmts_def named_def Let_def)

section \<open>What findTailRecursionReturn returns\<close>

text \<open>The closure accepts exactly the return statements of a single call of the
  function, and then it returns false.\<close>

lemma visit_eq:
  "visit fname s st =
     (if isSelfCallReturn fname s then (Some (s, resultCall s), False) else (st, True))"
proof (cases s)
  case (ReturnStmt results)
  show ?thesis
  proof (cases "length results = 1")
    case True
    then show ?thesis
      unfolding ReturnStmt visit_def isSelfCallReturn_def resultCall_def
      by (cases "results ! 0") (auto split: expr.splits)
  next
    case False
    then show ?thesis
      unfolding ReturnStmt visit_def isSelfCallReturn_def resultCall_def by simp
  qed
qed (simp_all add: visit_def isSelfCallReturn_def)

lemma isSelfCallReturn_only_return:
  "isSelfCallReturn fname (IfStmt i c b e) = False"
  "isSelfCallReturn fname (ForStmt i co p b) = False"
  "isSelfCallReturn fname (AssignStmt l t r) = False"
  "isSelfCallReturn fname (BlockStmt ss) = False"
  "isSelfCallReturn fname (ExprStmt x) = False"
  "isSelfCallReturn fname (OtherStmt k ns) = False"
  by (simp_all add: isSelfCallReturn_def)

lemma fold_matches:
  "(\<And>x st. x \<in> set xs \<Longrightarrow> w x st = fold (\<lambda>m _. Some m) (ms x) st) \<Longrightarrow>
   fold w xs st = fold (\<lambda>m _. Some m) (concat (map ms xs)) st"
proof (induction xs arbitrary: st)
  case Nil
  then show ?case by simp
next
  case (Cons x xs)
  then show ?case by simp
qed



lemma walk_matches:
  "walkExpr fname e st = fold (\<lambda>m _. Some m) (matchesExpr fname e) st"
  "walkStmt fname s st = fold (\<lambda>m _. Some m) (matchesStmt fname s) st"
  "walkNode fname n st = fold (\<lambda>m _. Some m) (matchesNode fname n) st"
proof (induction e and s and n arbitrary: st and st and st)
  case (CallExpr f args)
  then show ?case by (simp add: fold_matches)
next
  case (OtherExpr kind children)
  then show ?case by (simp add: fold_matches)
next
  case (IfStmt init cond body els)
  then show ?case
    by (simp add: visit_eq isSelfCallReturn_only_return fold_matches Let_def split: option.splits)
next
  case (ForStmt init cond post body)
  then show ?case
    by (simp add: visit_eq isSelfCallReturn_only_return fold_matches Let_def split: option.splits)
next
  case (ReturnStmt results)
  then show ?case
    by (simp add: visit_eq fold_matches resultCall_def)
next
  case (AssignStmt lhs tok rhs)
  then show ?case
    by (simp add: visit_eq isSelfCallReturn_only_return fold_matches)
next
  case (BlockStmt list)
  then show ?case
    by (simp add: visit_eq isSelfCallReturn_only_return fold_matches)
next
  case (ExprStmt x)
  then show ?case
    by (simp add: visit_eq isSelfCallReturn_only_return)
next
  case (OtherStmt kind children)
  then show ?case
    by (simp add: visit_eq isSelfCallReturn_only_return fold_matches)
qed simp_all

lemma fold_keeps_last:
  "fold (\<lambda>m _. Some m) ms st = (if ms = [] then st else Some (last ms))"
  by (induction ms arbitrary: st) simp_all

lemma findTailRecursionReturn_last:
  "findTailRecursionReturn fname body =
     (if matchesStmt fname (BlockStmt body) = [] then None
      else Some (last (matchesStmt fname (BlockStmt body))))"
  unfolding findTailRecursionReturn_def walk_matches(2) fold_keeps_last ..

lemma findTailRecursionReturn_final:
  "isSelfCallReturn fname s \<Longrightarrow>
   findTailRecursionReturn fname (pre @ [s]) = Some (s, resultCall s)"
  unfolding findTailRecursionReturn_last
  by (cases s) (simp_all add: isSelfCallReturn_only_return resultCall_def)

lemmas scenario_defs = firstRet_def lastRet_def twoCallsBody_def

text \<open>
  C2. The closure returns false at a return statement of a call of the function, which
  the comments of the code read as the end of the search. \<^verbatim>\<open>ast.Inspect\<close> only leaves out
  the children of that node and goes on with the rest of the tree, and each later such
  return statement overwrites the two variables. So \<^verbatim>\<open>findTailRecursionReturn\<close> returns
  the last pair in the order of the walk, and none when there is none. In
  \<^verbatim>\<open>if n == 0 { return acc }; if n == 1 { return F(0, acc+1) }; return F(n-2, acc+2)\<close> the
  first pair of the walk is \<^verbatim>\<open>return F(0, acc+1)\<close> and the function returns
  \<^verbatim>\<open>return F(n-2, acc+2)\<close>.
\<close>

theorem detector_reports_last:
  "findTailRecursionReturn fname body =
     (if matchesStmt fname (BlockStmt body) = [] then None
      else Some (last (matchesStmt fname (BlockStmt body)))) \<and>
   matchesStmt ''F'' (BlockStmt twoCallsBody) =
     [(firstRet, resultCall firstRet), (lastRet, resultCall lastRet)] \<and>
   findTailRecursionReturn ''F'' twoCallsBody = Some (lastRet, resultCall lastRet) \<and>
   firstTailReturnSpec ''F'' twoCallsBody = Some (firstRet, resultCall firstRet) \<and>
   firstRet \<noteq> lastRet"
proof (intro conjI)
  show g: "findTailRecursionReturn fname body =
     (if matchesStmt fname (BlockStmt body) = [] then None
      else Some (last (matchesStmt fname (BlockStmt body))))" for fname body
    by (rule findTailRecursionReturn_last)
  show m: "matchesStmt ''F'' (BlockStmt twoCallsBody) =
     [(firstRet, resultCall firstRet), (lastRet, resultCall lastRet)]"
    by (simp add: scenario_defs isSelfCallReturn_def resultCall_def)
  show "findTailRecursionReturn ''F'' twoCallsBody = Some (lastRet, resultCall lastRet)"
    unfolding g m by simp
  show "firstTailReturnSpec ''F'' twoCallsBody = Some (firstRet, resultCall firstRet)"
    unfolding firstTailReturnSpec_def m by simp
  show "firstRet \<noteq> lastRet"
    by (simp add: scenario_defs)
qed

section \<open>When a declaration is rewritten\<close>

lemma baseIf_Some:
  "baseIf body = Some (c, ifBody) \<longleftrightarrow> (\<exists>init els rest. body = IfStmt init c ifBody els # rest)"
  by (cases body) (auto simp: baseIf_def split: stmt.splits)

lemma rewriteDecl_NewBody:
  "rewriteDecl (FuncDecl f params (Some body)) = Inr (NewBody loop ret) \<longleftrightarrow>
   (\<exists>tailRet call c ifBody staging.
      findTailRecursionReturn f body = Some (tailRet, call) \<and>
      baseIf body = Some (c, ifBody) \<and>
      makeAssignStmts params (callArgs call) = Inr staging \<and>
      loop = ForStmt None (Some (loopCond c)) None (staging @ nonRecursiveStmts f body) \<and>
      ret = baseReturn ifBody)"
  by (auto simp: rewriteDecl_def split: option.splits sum.splits prod.splits)

text \<open>
  C3. The then-branch of \<^verbatim>\<open>if n == 0 { println(); return 0 }\<close> does not begin with a return
  statement, so the function has no usable base return. The loop over the declarations
  passes over a function without a return of a call of itself (lines 115 to 117) and
  over a function that does not begin with an if statement (lines 127 to 129), but
  \<^verbatim>\<open>baseReturn\<close> is never compared with nil: the function is not left as it is, its body
  is replaced by the loop and the nil \<^verbatim>\<open>baseReturn\<close>, where the comment of line 195 has a
  return statement put after the loop, and the printer stops the program on the nil
  statement, with nothing printed.
\<close>

theorem nil_base_return_faults:
  "findTailRecursionReturn ''F''
     [IfStmt None (BinaryExpr (Ident ''n'') EQL (BasicLit 0))
        [ExprStmt (CallExpr (Ident ''println'') []), ReturnStmt [BasicLit 0]] None,
      ReturnStmt [CallExpr (Ident ''F'') [BinaryExpr (Ident ''n'') SUB (BasicLit 1)]]] \<noteq> None \<and>
   baseIf
     [IfStmt None (BinaryExpr (Ident ''n'') EQL (BasicLit 0))
        [ExprStmt (CallExpr (Ident ''println'') []), ReturnStmt [BasicLit 0]] None,
      ReturnStmt [CallExpr (Ident ''F'') [BinaryExpr (Ident ''n'') SUB (BasicLit 1)]]] =
     Some (BinaryExpr (Ident ''n'') EQL (BasicLit 0),
           [ExprStmt (CallExpr (Ident ''println'') []), ReturnStmt [BasicLit 0]]) \<and>
   baseReturn [ExprStmt (CallExpr (Ident ''println'') []), ReturnStmt [BasicLit 0]] = None \<and>
   rewriteDecl printDecl =
     Inr (NewBody
       (ForStmt None (Some (BinaryExpr (Ident ''n'') NEQ (BasicLit 0))) None
          [AssignStmt [Ident ''tmpn''] DEFINE [BinaryExpr (Ident ''n'') SUB (BasicLit 1)],
           AssignStmt [Ident ''n''] ASSIGN [Ident ''tmpn'']])
       None) \<and>
   rewriteDecl printDecl \<noteq> Inr Unchanged \<and>
   printOutcome (NewBody
       (ForStmt None (Some (BinaryExpr (Ident ''n'') NEQ (BasicLit 0))) None
          [AssignStmt [Ident ''tmpn''] DEFINE [BinaryExpr (Ident ''n'') SUB (BasicLit 1)],
           AssignStmt [Ident ''n''] ASSIGN [Ident ''tmpn'']])
       None) = Some NilDereference \<and>
   mainProgram [printDecl] = Inl NilDereference"
  by (simp add: printDecl_def rewrite_eval mainProgram_def printOutcome_def posPanic_def
      List.map_filter_simps)

lemmas goto_defs = gotoDecl_def gotoGuard_def gotoJump_def gotoSmall_def gotoBig_def gotoLabeled_def

text \<open>
  In \<^verbatim>\<open>if n == 0 { return 0 }; if n > 5 { goto big }; return F(n - 1); big: return F(n - 2)\<close>
  the detector reports \<^verbatim>\<open>return F(n - 2)\<close>, inside the labeled statement. The body less the
  guard and less that return statement still holds \<^verbatim>\<open>return F(n - 1)\<close>; the filtering loop
  removes it, being a return of a call of the function at the top of the body.
\<close>

theorem goto_counterexample:
  "findTailRecursionReturn ''F'' [gotoGuard, gotoJump, gotoSmall, gotoLabeled] =
     Some (gotoBig, resultCall gotoBig) \<and>
   remainderSpec [gotoGuard, gotoJump, gotoSmall, gotoLabeled] gotoGuard gotoBig =
     [gotoJump, gotoSmall, gotoLabeled] \<and>
   nonRecursiveStmts ''F'' [gotoGuard, gotoJump, gotoSmall, gotoLabeled] = [gotoJump, gotoLabeled] \<and>
   rewriteDecl gotoDecl =
     Inr (NewBody
       (ForStmt None (Some (BinaryExpr (Ident ''n'') NEQ (BasicLit 0))) None
          ([AssignStmt [Ident ''tmpn''] DEFINE [BinaryExpr (Ident ''n'') SUB (BasicLit 2)],
            AssignStmt [Ident ''n''] ASSIGN [Ident ''tmpn'']] @
           [gotoJump, gotoLabeled]))
       (Some (ReturnStmt [BasicLit 0])))"
  by (simp add: goto_defs rewrite_eval remainderSpec_def resultCall_def)

text \<open>
  C7, as the code has it. For every rewritten function the new body is the loop and the
  base return. The condition of the loop is the condition of the guard, negated by
  \<open>loopCond\<close>; the body of the loop is the staging statements followed by every statement
  after the guard that is not itself a return of a single call of the function, in the
  order of the body (each such return at the top of the body is removed, reported by the
  detector or not, and a reported return inside another statement stays there). When
  the then-branch of the guard begins with a return statement, that statement is the
  base return and the other statements of the branch are dropped. In particular, for a
  body made of the guard, statements that are no such returns and a last statement that
  is one, the loop body is the staging statements followed by exactly the statements in
  between.
\<close>

theorem new_body_shape:
  "(rewriteDecl (FuncDecl f params (Some body)) = Inr (NewBody loop ret) \<longrightarrow>
      (\<exists>init c ifBody els tailRet call staging.
         body \<noteq> [] \<and> hd body = IfStmt init c ifBody els \<and>
         findTailRecursionReturn f body = Some (tailRet, call) \<and>
         makeAssignStmts params (callArgs call) = Inr staging \<and>
         loop = ForStmt None (Some (loopCond c)) None
                  (staging @ filter (\<lambda>s. \<not> isSelfCallReturn f s) (tl body)) \<and>
         (\<forall>rs more. ifBody = ReturnStmt rs # more \<longrightarrow> ret = Some (ReturnStmt rs)))) \<and>
   (isSelfCallReturn f tailRet \<and> (\<forall>s\<in>set mid. \<not> isSelfCallReturn f s) \<and>
    makeAssignStmts params (callArgs (resultCall tailRet)) = Inr staging \<longrightarrow>
      rewriteDecl (FuncDecl f params
          (Some (IfStmt init c (ReturnStmt rs # more) els # mid @ [tailRet]))) =
        Inr (NewBody (ForStmt None (Some (loopCond c)) None (staging @ mid))
               (Some (ReturnStmt rs))))"
proof (intro conjI impI)
  assume "rewriteDecl (FuncDecl f params (Some body)) = Inr (NewBody loop ret)"
  then obtain tailRet call c ifBody staging where
    f: "findTailRecursionReturn f body = Some (tailRet, call)" and
    b: "baseIf body = Some (c, ifBody)" and
    m: "makeAssignStmts params (callArgs call) = Inr staging" and
    l: "loop = ForStmt None (Some (loopCond c)) None (staging @ nonRecursiveStmts f body)" and
    r: "ret = baseReturn ifBody"
    unfolding rewriteDecl_NewBody by blast
  from b obtain init els rest where body: "body = IfStmt init c ifBody els # rest"
    unfolding baseIf_Some by blast
  have "\<forall>rs more. ifBody = ReturnStmt rs # more \<longrightarrow> ret = Some (ReturnStmt rs)"
    by (simp add: r baseReturn_def)
  with f m l body
  show "\<exists>init c ifBody els tailRet call staging.
         body \<noteq> [] \<and> hd body = IfStmt init c ifBody els \<and>
         findTailRecursionReturn f body = Some (tailRet, call) \<and>
         makeAssignStmts params (callArgs call) = Inr staging \<and>
         loop = ForStmt None (Some (loopCond c)) None
                  (staging @ filter (\<lambda>s. \<not> isSelfCallReturn f s) (tl body)) \<and>
         (\<forall>rs more. ifBody = ReturnStmt rs # more \<longrightarrow> ret = Some (ReturnStmt rs))"
    by (simp add: nonRecursiveStmts_def drop_Suc)
next
  assume h: "isSelfCallReturn f tailRet \<and> (\<forall>s\<in>set mid. \<not> isSelfCallReturn f s) \<and>
    makeAssignStmts params (callArgs (resultCall tailRet)) = Inr staging"
  let ?body = "IfStmt init c (ReturnStmt rs # more) els # mid @ [tailRet]"
  have "findTailRecursionReturn f ((IfStmt init c (ReturnStmt rs # more) els # mid) @ [tailRet]) =
      Some (tailRet, resultCall tailRet)"
    using h by (intro findTailRecursionReturn_final) simp
  then have f: "findTailRecursionReturn f ?body = Some (tailRet, resultCall tailRet)" by simp
  have b: "baseIf ?body = Some (c, ReturnStmt rs # more)" by (simp add: baseIf_def)
  have n: "nonRecursiveStmts f ?body = mid"
    using h by (simp add: nonRecursiveStmts_def)
  have r: "baseReturn (ReturnStmt rs # more) = Some (ReturnStmt rs)" by (simp add: baseReturn_def)
  show "rewriteDecl (FuncDecl f params (Some ?body)) =
        Inr (NewBody (ForStmt None (Some (loopCond c)) None (staging @ mid)) (Some (ReturnStmt rs)))"
    unfolding rewriteDecl_NewBody using f b n r h by simp
qed

theorem new_body_shape_witness:
  "rewriteDecl sumDecl = Inr (NewBody sumLoop (Some (ReturnStmt [Ident ''acc'']))) \<and>
   (\<exists>init c ifBody els tailRet call staging.
      sumBody \<noteq> [] \<and> hd sumBody = IfStmt init c ifBody els \<and>
      findTailRecursionReturn ''Sum'' sumBody = Some (tailRet, call) \<and>
      makeAssignStmts [Field [''n''] intT, Field [''acc''] intT] (callArgs call) = Inr staging \<and>
      sumLoop = ForStmt None (Some (loopCond c)) None
                  (staging @ filter (\<lambda>s. \<not> isSelfCallReturn ''Sum'' s) (tl sumBody)) \<and>
      (\<forall>rs more. ifBody = ReturnStmt rs # more \<longrightarrow>
         Some (ReturnStmt [Ident ''acc'']) = Some (ReturnStmt rs))) \<and>
   isSelfCallReturn ''F'' (ReturnStmt [CallExpr (Ident ''F'') [BinaryExpr (Ident ''n'') SUB (BasicLit 1)]]) \<and>
   \<not> isSelfCallReturn ''F'' (ExprStmt (CallExpr (Ident ''println'') [Ident ''n''])) \<and>
   makeAssignStmts [Field [''n''] intT]
     (callArgs (resultCall
        (ReturnStmt [CallExpr (Ident ''F'') [BinaryExpr (Ident ''n'') SUB (BasicLit 1)]]))) =
     Inr [AssignStmt [Ident ''tmpn''] DEFINE [BinaryExpr (Ident ''n'') SUB (BasicLit 1)],
          AssignStmt [Ident ''n''] ASSIGN [Ident ''tmpn'']] \<and>
   rewriteDecl (FuncDecl ''F'' [Field [''n''] intT]
      (Some (IfStmt None (BinaryExpr (Ident ''n'') EQL (BasicLit 0))
               (ReturnStmt [BasicLit 0] # []) None #
             [ExprStmt (CallExpr (Ident ''println'') [Ident ''n''])] @
             [ReturnStmt [CallExpr (Ident ''F'') [BinaryExpr (Ident ''n'') SUB (BasicLit 1)]]]))) =
     Inr (NewBody
       (ForStmt None (Some (loopCond (BinaryExpr (Ident ''n'') EQL (BasicLit 0)))) None
          ([AssignStmt [Ident ''tmpn''] DEFINE [BinaryExpr (Ident ''n'') SUB (BasicLit 1)],
            AssignStmt [Ident ''n''] ASSIGN [Ident ''tmpn'']] @
           [ExprStmt (CallExpr (Ident ''println'') [Ident ''n''])]))
       (Some (ReturnStmt [BasicLit 0])))"
proof -
  have h: "rewriteDecl (FuncDecl ''Sum'' [Field [''n''] intT, Field [''acc''] intT] (Some sumBody)) =
      Inr (NewBody sumLoop (Some (ReturnStmt [Ident ''acc''])))"
    by (simp add: sumBody_def sumLoop_def rewrite_eval)
  note t = new_body_shape [where f = "''Sum''" and params = "[Field [''n''] intT, Field [''acc''] intT]"
      and body = sumBody and loop = sumLoop and ret = "Some (ReturnStmt [Ident ''acc''])",
      THEN conjunct1, THEN mp, OF h]
  let ?ret = "ReturnStmt [CallExpr (Ident ''F'') [BinaryExpr (Ident ''n'') SUB (BasicLit 1)]]"
  let ?mid = "[ExprStmt (CallExpr (Ident ''println'') [Ident ''n''])]"
  let ?staging = "[AssignStmt [Ident ''tmpn''] DEFINE [BinaryExpr (Ident ''n'') SUB (BasicLit 1)],
          AssignStmt [Ident ''n''] ASSIGN [Ident ''tmpn'']]"
  have a: "isSelfCallReturn ''F'' ?ret" by (simp add: isSelfCallReturn_def)
  have b: "\<not> isSelfCallReturn ''F'' (ExprStmt (CallExpr (Ident ''println'') [Ident ''n'']))"
    by (simp add: isSelfCallReturn_def)
  have m: "makeAssignStmts [Field [''n''] intT] (callArgs (resultCall ?ret)) = Inr ?staging"
    by (simp add: makeAssignStmts_def callArgs_def resultCall_def Let_def)
  have hyp: "isSelfCallReturn ''F'' ?ret \<and> (\<forall>s\<in>set ?mid. \<not> isSelfCallReturn ''F'' s) \<and>
      makeAssignStmts [Field [''n''] intT] (callArgs (resultCall ?ret)) = Inr ?staging"
    using a b m by simp
  note u = new_body_shape [where f = "''F''" and params = "[Field [''n''] intT]" and tailRet = ?ret
      and mid = ?mid and staging = ?staging and init = None
      and c = "BinaryExpr (Ident ''n'') EQL (BasicLit 0)" and rs = "[BasicLit 0]" and more = "[]"
      and els = None, THEN conjunct2, THEN mp, OF hyp]
  from h t a b m u show ?thesis
    unfolding sumDecl_def by blast
qed

section \<open>The names of the temporaries\<close>

lemma identsExpr_loopCond: "identsExpr (loopCond c) = identsExpr c"
proof (cases c)
  case (BinaryExpr x op y)
  then show ?thesis by (cases op) (simp_all add: loopCond_def)
qed (simp_all add: loopCond_def)

lemma baseReturn_Some:
  "baseReturn ifBody = Some r \<Longrightarrow> \<exists>rs more. ifBody = r # more \<and> r = ReturnStmt rs"
  by (cases ifBody) (auto simp: baseReturn_def split: stmt.splits)

text \<open>
  In \<^verbatim>\<open>func F(a int, tmpa int) int { if a == 0 { return tmpa }; return F(tmpa, a) }\<close> the
  temporary of \<open>a\<close> is \<open>tmpa\<close>, the name of the second parameter, and \<open>tmpa\<close> occurs in
  the return statement placed after the loop.
\<close>

theorem collide_counterexample:
  "rewriteDecl collideDecl =
     Inr (NewBody
       (ForStmt None (Some (BinaryExpr (Ident ''a'') NEQ (BasicLit 0))) None
          [AssignStmt [Ident ''tmpa''] DEFINE [Ident ''tmpa''],
           AssignStmt [Ident ''tmptmpa''] DEFINE [Ident ''a''],
           AssignStmt [Ident ''a'', Ident ''tmpa''] ASSIGN [Ident ''tmpa'', Ident ''tmptmpa'']])
       (Some (ReturnStmt [Ident ''tmpa'']))) \<and>
   ''tmpa'' \<in> set (tmpNames (Params collideDecl)) \<and>
   ''tmpa'' \<in> set (identsFunc (Params collideDecl) collideBody) \<and>
   ''tmpa'' \<in> set (identsStmt (ReturnStmt [Ident ''tmpa'']))"
  by (simp add: collideDecl_def collideBody_def rewrite_eval tmpNames_def tmpName_def
      firstName_def named_def identsFunc_def)

text \<open>
  C9, as the code has it. For every rewritten function the temporaries are named by
  putting \<open>tmp\<close> before the first name of each named parameter field, whatever
  identifiers the function holds already, and they are declared by the first
  statements of the body of the new loop, one declaring assignment each. When no
  identifier of the function (the names of its parameters and the identifiers of its
  body) has the name of a temporary, no temporary occurs in the condition of the loop
  or in the return statement after the loop.
\<close>

theorem temporaries_from_names:
  "rewriteDecl (FuncDecl f params (Some body)) = Inr (NewBody loop ret) \<longrightarrow>
     (\<exists>c lb.
        loop = ForStmt None (Some c) None lb \<and>
        tmpNames params = map (\<lambda>p. ''tmp'' @ Names p ! 0) (filter named params) \<and>
        (\<forall>i<length (tmpNames params).
           \<exists>a. lb ! i = AssignStmt [Ident (tmpNames params ! i)] DEFINE [a]) \<and>
        ((\<forall>t\<in>set (tmpNames params). t \<notin> set (identsFunc params body)) \<longrightarrow>
         (\<forall>t\<in>set (tmpNames params).
            t \<notin> set (identsExpr c) \<and> (\<forall>r. ret = Some r \<longrightarrow> t \<notin> set (identsStmt r)))))"
proof
  assume "rewriteDecl (FuncDecl f params (Some body)) = Inr (NewBody loop ret)"
  then obtain tailRet call c0 ifBody staging where
    m: "makeAssignStmts params (callArgs call) = Inr staging" and
    b: "baseIf body = Some (c0, ifBody)" and
    l: "loop = ForStmt None (Some (loopCond c0)) None (staging @ nonRecursiveStmts f body)" and
    r: "ret = baseReturn ifBody"
    unfolding rewriteDecl_NewBody by blast
  let ?N = "filter named params"
  let ?args = "callArgs call"
  note shape = makeAssignStmts_Inr(1) [OF m]
  from b obtain init els rest where body: "body = IfStmt init c0 ifBody els # rest"
    unfolding baseIf_Some by blast
  have ok: "\<forall>j<length params. named (params ! j) \<longrightarrow> j < length ?args \<and> j < length ?N"
    using m makeAssignStmts_ok_iff [of params ?args] by blast
  have len: "length ?N \<le> length ?args"
  proof (cases "length ?N")
    case 0
    then show ?thesis by simp
  next
    case (Suc k)
    then have k: "k < length ?N" by simp
    have kp: "k < length params" by (rule order_less_le_trans [OF k length_filter_le])
    have "?N ! k = take (length ?N) params ! k" using makeAssignStmts_Inr(2) [OF m] by simp
    then have "?N ! k = params ! k" using k by simp
    with nth_mem [OF k] have "named (params ! k)" by simp
    with ok kp have "k < length ?args" by blast
    with Suc show ?thesis by simp
  qed
  have decl: "\<forall>i<length (tmpNames params).
      \<exists>a. (staging @ nonRecursiveStmts f body) ! i = AssignStmt [Ident (tmpNames params ! i)] DEFINE [a]"
  proof (intro allI impI)
    fix i assume "i < length (tmpNames params)"
    then have i: "i < length ?N" by (simp add: tmpNames_def)
    then have "(staging @ nonRecursiveStmts f body) ! i = map declStmt (zip ?N ?args) ! i"
      using shape len by (simp add: nth_append)
    also have "\<dots> = declStmt (?N ! i, ?args ! i)" using i len by simp
    finally show "\<exists>a. (staging @ nonRecursiveStmts f body) ! i =
        AssignStmt [Ident (tmpNames params ! i)] DEFINE [a]"
      using i by (simp add: declStmt_def tmpNames_def)
  qed
  have cond: "set (identsExpr (loopCond c0)) \<subseteq> set (identsFunc params body)"
    by (auto simp: identsExpr_loopCond body identsFunc_def)
  have retn: "set (identsStmt s) \<subseteq> set (identsFunc params body)" if "ret = Some s" for s
  proof -
    from that r baseReturn_Some [of ifBody s] obtain more where "ifBody = s # more" by auto
    then show ?thesis by (auto simp: body identsFunc_def)
  qed
  have fresh: "(\<forall>t\<in>set (tmpNames params). t \<notin> set (identsFunc params body)) \<longrightarrow>
         (\<forall>t\<in>set (tmpNames params).
            t \<notin> set (identsExpr (loopCond c0)) \<and> (\<forall>r. ret = Some r \<longrightarrow> t \<notin> set (identsStmt r)))"
  proof (intro impI ballI conjI allI)
    fix t assume a: "\<forall>t\<in>set (tmpNames params). t \<notin> set (identsFunc params body)"
      and t: "t \<in> set (tmpNames params)"
    from a t have n: "t \<notin> set (identsFunc params body)" by simp
    show "t \<notin> set (identsExpr (loopCond c0))" using n cond by (rule contra_subsetD [rotated])
    fix s assume "ret = Some s"
    from retn [OF this] n show "t \<notin> set (identsStmt s)" by (rule contra_subsetD)
  qed
  have names: "tmpNames params = map (\<lambda>p. ''tmp'' @ Names p ! 0) (filter named params)"
    by (simp add: tmpNames_def tmpName_def firstName_def)
  show "\<exists>c lb.
        loop = ForStmt None (Some c) None lb \<and>
        tmpNames params = map (\<lambda>p. ''tmp'' @ Names p ! 0) (filter named params) \<and>
        (\<forall>i<length (tmpNames params).
           \<exists>a. lb ! i = AssignStmt [Ident (tmpNames params ! i)] DEFINE [a]) \<and>
        ((\<forall>t\<in>set (tmpNames params). t \<notin> set (identsFunc params body)) \<longrightarrow>
         (\<forall>t\<in>set (tmpNames params).
            t \<notin> set (identsExpr c) \<and> (\<forall>r. ret = Some r \<longrightarrow> t \<notin> set (identsStmt r))))"
    by (rule exI [of _ "loopCond c0"], rule exI [of _ "staging @ nonRecursiveStmts f body"])
      (intro conjI l names decl fresh)
qed

theorem temporaries_from_names_witness:
  "rewriteDecl sumDecl = Inr (NewBody sumLoop (Some (ReturnStmt [Ident ''acc'']))) \<and>
   tmpNames (Params sumDecl) = [''tmpn'', ''tmpacc''] \<and>
   ''tmpn'' \<notin> set (identsFunc (Params sumDecl) sumBody) \<and>
   ''tmpacc'' \<notin> set (identsFunc (Params sumDecl) sumBody) \<and>
   (\<exists>c lb.
      sumLoop = ForStmt None (Some c) None lb \<and>
      (\<forall>i<length [''tmpn'', ''tmpacc''].
         \<exists>a. lb ! i = AssignStmt [Ident ([''tmpn'', ''tmpacc''] ! i)] DEFINE [a]) \<and>
      ''tmpn'' \<notin> set (identsExpr c) \<and> ''tmpacc'' \<notin> set (identsExpr c) \<and>
      ''tmpn'' \<notin> set (identsStmt (ReturnStmt [Ident ''acc''])) \<and>
      ''tmpacc'' \<notin> set (identsStmt (ReturnStmt [Ident ''acc''])))"
proof -
  let ?ps = "[Field [''n''] intT, Field [''acc''] intT]"
  have h: "rewriteDecl (FuncDecl ''Sum'' ?ps (Some sumBody)) =
      Inr (NewBody sumLoop (Some (ReturnStmt [Ident ''acc''])))"
    by (simp add: sumBody_def sumLoop_def rewrite_eval)
  have n: "tmpNames ?ps = [''tmpn'', ''tmpacc'']"
    by (simp add: tmpNames_def tmpName_def firstName_def named_def)
  have f: "''tmpn'' \<notin> set (identsFunc ?ps sumBody)" "''tmpacc'' \<notin> set (identsFunc ?ps sumBody)"
    by (simp_all add: identsFunc_def sumBody_def)
  from temporaries_from_names [where f = "''Sum''" and params = ?ps and body = sumBody
      and loop = sumLoop and ret = "Some (ReturnStmt [Ident ''acc''])"] h
  obtain c lb where
    l: "sumLoop = ForStmt None (Some c) None lb" and
    d: "\<forall>i<length (tmpNames ?ps). \<exists>a. lb ! i = AssignStmt [Ident (tmpNames ?ps ! i)] DEFINE [a]" and
    fr: "(\<forall>t\<in>set (tmpNames ?ps). t \<notin> set (identsFunc ?ps sumBody)) \<longrightarrow>
         (\<forall>t\<in>set (tmpNames ?ps).
            t \<notin> set (identsExpr c) \<and>
            (\<forall>r. Some (ReturnStmt [Ident ''acc'']) = Some r \<longrightarrow> t \<notin> set (identsStmt r)))"
    by blast
  from fr f have
    "''tmpn'' \<notin> set (identsExpr c) \<and> ''tmpacc'' \<notin> set (identsExpr c) \<and>
     ''tmpn'' \<notin> set (identsStmt (ReturnStmt [Ident ''acc''])) \<and>
     ''tmpacc'' \<notin> set (identsStmt (ReturnStmt [Ident ''acc'']))"
    unfolding n by simp
  with l d h n f show ?thesis
    unfolding sumDecl_def decl.sel by (intro conjI exI [of _ c] exI [of _ lb]) simp_all
qed

section \<open>The accumulator scenario\<close>

text \<open>Wrapping around keeps a value of the range, leaves a value of the range as it is,
  and may be done before or after a sum.\<close>

lemma isInt_wrapInt: "isInt (wrapInt v)"
proof -
  have "0 \<le> (v + 2 ^ 63) mod (2 ^ 64 :: int)" and "(v + 2 ^ 63) mod (2 ^ 64 :: int) < 2 ^ 64"
    by simp_all
  then show ?thesis by (simp add: isInt_def wrapInt_def)
qed

lemma wrapInt_id: "isInt v \<Longrightarrow> wrapInt v = v"
proof -
  assume "isInt v"
  then have "0 \<le> v + 2 ^ 63" and "v + 2 ^ 63 < (2 ^ 64 :: int)"
    by (simp_all add: isInt_def)
  then have "(v + 2 ^ 63) mod (2 ^ 64 :: int) = v + 2 ^ 63"
    by (rule mod_pos_pos_trivial)
  then show ?thesis by (simp add: wrapInt_def)
qed

lemma wrapInt_add_left: "wrapInt (wrapInt x + y) = wrapInt (x + y)"
proof -
  have "(wrapInt x + y + 2 ^ 63) mod (2 ^ 64 :: int) = ((x + 2 ^ 63) mod 2 ^ 64 + y) mod 2 ^ 64"
    by (simp add: wrapInt_def algebra_simps)
  also have "\<dots> = (x + 2 ^ 63 + y) mod 2 ^ 64"
    by (rule mod_add_left_eq)
  finally show ?thesis by (simp add: wrapInt_def algebra_simps)
qed

text \<open>A call on integer literals binds the parameters and runs the body with one unit
  of fuel less.\<close>

lemma those_literals:
  "those (map (eval k ds env \<circ> BasicLit) ws) = (if list_all isInt ws then Some ws else None)"
  by (induction ws) simp_all

lemma run_unfold:
  "run k (FuncDecl f params (Some body)) vs =
     (if list_all isInt vs
      then (case k of
              0 \<Rightarrow> None
            | Suc k' \<Rightarrow>
                (case assignAll (map Ident (concat (map Names params))) vs Map.empty of
                   None \<Rightarrow> None
                 | Some env0 \<Rightarrow>
                     (case execSeq (exec k' [FuncDecl f params (Some body)]) env0 body of
                        Some (Returned v) \<Rightarrow> Some v
                      | _ \<Rightarrow> None)))
      else None)"
  by (cases k) (simp_all add: run_def callOf_def lookupFunc_def those_literals)

lemma lookup_sum: "lookupFunc [sumDecl] ''Sum'' = Some ([''n'', ''acc''], sumBody)"
  by (simp add: lookupFunc_def sumDecl_def)

lemma sum_rec_step:
  "execSeq (exec k [sumDecl]) (Map.empty(''n'' \<mapsto> n, ''acc'' \<mapsto> a)) sumBody =
     (if n = 0 then Some (Returned a)
      else (case k of
              0 \<Rightarrow> None
            | Suc k' \<Rightarrow>
                (case execSeq (exec k' [sumDecl])
                        (Map.empty(''n'' \<mapsto> wrapInt (n - 1), ''acc'' \<mapsto> wrapInt (a + n))) sumBody of
                   Some (Returned v) \<Rightarrow> Some (Returned v)
                 | _ \<Rightarrow> None)))"
proof -
  have "execSeq (exec k [sumDecl]) (Map.empty(''n'' \<mapsto> n, ''acc'' \<mapsto> a)) sumBody =
      execSeq (exec k [sumDecl]) (Map.empty(''n'' \<mapsto> n, ''acc'' \<mapsto> a))
        [IfStmt None (BinaryExpr (Ident ''n'') EQL (BasicLit 0)) [ReturnStmt [Ident ''acc'']] None,
         ReturnStmt [CallExpr (Ident ''Sum'')
           [BinaryExpr (Ident ''n'') SUB (BasicLit 1), BinaryExpr (Ident ''acc'') ADD (Ident ''n'')]]]"
    by (simp only: sumBody_def)
  also have "\<dots> = (if n = 0 then Some (Returned a)
      else (case k of
              0 \<Rightarrow> None
            | Suc k' \<Rightarrow>
                (case execSeq (exec k' [sumDecl])
                        (Map.empty(''n'' \<mapsto> wrapInt (n - 1), ''acc'' \<mapsto> wrapInt (a + n))) sumBody of
                   Some (Returned v) \<Rightarrow> Some (Returned v)
                 | _ \<Rightarrow> None)))"
    by (simp add: lookup_sum isInt_def split: nat.splits option.splits flow.splits)
  finally show ?thesis .
qed

text \<open>One turn of a loop with a condition only, with the loop left folded.\<close>

lemma for_step:
  "exec k ds env (ForStmt None (Some c) None body) =
     (case evalCond k ds env c of
        None \<Rightarrow> None
      | Some False \<Rightarrow> Some (Next env)
      | Some True \<Rightarrow>
          (case k of
             0 \<Rightarrow> None
           | Suc k' \<Rightarrow>
               (case execSeq (exec k' ds) env body of
                  Some (Next env') \<Rightarrow> exec k' ds env' (ForStmt None (Some c) None body)
                | r \<Rightarrow> r)))"
  by simp

lemma sum_loop_step:
  assumes "env ''n'' = Some x" and "env ''acc'' = Some a"
  shows "exec k ds env sumLoop =
     (if x = 0 then Some (Next env)
      else (case k of
              0 \<Rightarrow> None
            | Suc k' \<Rightarrow>
                exec k' ds
                  (env(''tmpn'' \<mapsto> wrapInt (x - 1), ''tmpacc'' \<mapsto> wrapInt (a + x),
                       ''n'' \<mapsto> wrapInt (x - 1), ''acc'' \<mapsto> wrapInt (a + x)))
                  sumLoop))"
  unfolding for_step [of k ds env "BinaryExpr (Ident ''n'') NEQ (BasicLit 0)"
      "[AssignStmt [Ident ''tmpn''] DEFINE [BinaryExpr (Ident ''n'') SUB (BasicLit 1)],
        AssignStmt [Ident ''tmpacc''] DEFINE [BinaryExpr (Ident ''acc'') ADD (Ident ''n'')],
        AssignStmt [Ident ''n'', Ident ''acc''] ASSIGN [Ident ''tmpn'', Ident ''tmpacc'']]",
      folded sumLoop_def]
  using assms by (simp add: isInt_def split: nat.splits)

lemma afterLoop_not_Next: "afterLoop r x \<noteq> Some (Next e)"
  by (auto simp: afterLoop_def split: option.splits flow.splits)

lemma loop_then_return:
  "execSeq (exec k ds) env [loop, ReturnStmt [Ident x]] = afterLoop (exec k ds env loop) x"
  by (simp add: afterLoop_def split: option.splits flow.splits)

lemma sum_simulation:
  "env ''n'' = Some x \<Longrightarrow> env ''acc'' = Some a \<Longrightarrow>
   afterLoop (exec k [sumRewritten] env sumLoop) ''acc'' =
   execSeq (exec k [sumDecl]) (Map.empty(''n'' \<mapsto> x, ''acc'' \<mapsto> a)) sumBody"
proof (induction k arbitrary: env x a)
  case 0
  show ?case
    unfolding sum_loop_step [OF 0] sum_rec_step [of 0]
    by (simp add: afterLoop_def 0)
next
  case (Suc k)
  show ?case
  proof (cases "x = 0")
    case True
    show ?thesis
      unfolding sum_loop_step [OF Suc.prems] sum_rec_step [of "Suc k"]
      using True by (simp add: afterLoop_def Suc.prems)
  next
    case False
    let ?env = "env(''tmpn'' \<mapsto> wrapInt (x - 1), ''tmpacc'' \<mapsto> wrapInt (a + x),
        ''n'' \<mapsto> wrapInt (x - 1), ''acc'' \<mapsto> wrapInt (a + x))"
    let ?rec = "execSeq (exec k [sumDecl])
        (Map.empty(''n'' \<mapsto> wrapInt (x - 1), ''acc'' \<mapsto> wrapInt (a + x))) sumBody"
    have ih: "afterLoop (exec k [sumRewritten] ?env sumLoop) ''acc'' = ?rec"
      by (rule Suc.IH) simp_all
    have "?rec \<noteq> Some (Next e)" for e
      unfolding ih [symmetric] by (rule afterLoop_not_Next)
    then have "(case ?rec of Some (Returned v) \<Rightarrow> Some (Returned v) | _ \<Rightarrow> None) = ?rec"
      by (auto split: option.splits flow.splits)
    then show ?thesis
      unfolding sum_loop_step [OF Suc.prems] sum_rec_step [of "Suc k"]
      using False ih by (simp del: fun_upd_apply)
  qed
qed

lemmas run_sumRewritten =
  run_unfold [of _ "''Sum''" "[Field [''n''] intT, Field [''acc''] intT]"
    "[sumLoop, ReturnStmt [Ident ''acc'']]", folded sumRewritten_def]

lemmas run_sumDecl =
  run_unfold [of _ "''Sum''" "[Field [''n''] intT, Field [''acc''] intT]" sumBody,
    folded sumDecl_def]

lemma sum_equivalent: "run k sumRewritten [n, a] = run k sumDecl [n, a]"
proof (cases k)
  case 0
  then show ?thesis by (simp add: run_sumRewritten run_sumDecl)
next
  case (Suc k')
  show ?thesis
  proof (cases "list_all isInt [n, a]")
    case False
    then show ?thesis unfolding run_sumRewritten run_sumDecl by (simp only: if_False)
  next
    case True
    have "run k sumRewritten [n, a] =
        (case afterLoop (exec k' [sumRewritten] (Map.empty(''n'' \<mapsto> n, ''acc'' \<mapsto> a)) sumLoop) ''acc'' of
           Some (Returned v) \<Rightarrow> Some v | _ \<Rightarrow> None)"
      unfolding Suc run_sumRewritten loop_then_return using True by simp
    also have "\<dots> = run k sumDecl [n, a]"
      unfolding Suc run_sumDecl using True by (simp add: sum_simulation)
    finally show ?thesis .
  qed
qed

text \<open>The recursive function on \<open>m\<close> and an accumulator: it returns when the fuel covers
  the \<open>m\<close> further calls, and then the accumulator plus \<open>m * (m + 1) div 2\<close>, wrapped.\<close>

lemma sum_rec_closed:
  "int m < 2 ^ 63 \<Longrightarrow> isInt a \<Longrightarrow>
   execSeq (exec k [sumDecl]) (Map.empty(''n'' \<mapsto> int m, ''acc'' \<mapsto> a)) sumBody =
     (if m \<le> k then Some (Returned (wrapInt (a + int (m * (m + 1) div 2)))) else None)"
proof (induction m arbitrary: k a)
  case 0
  then show ?case by (subst sum_rec_step) (simp add: wrapInt_id)
next
  case (Suc m)
  have ar: "int (Suc m * (Suc m + 1) div 2) = int (Suc m) + int (m * (m + 1) div 2)"
  proof -
    have "Suc m * (Suc m + 1) = 2 * Suc m + m * (m + 1)" by simp
    then have "Suc m * (Suc m + 1) div 2 = Suc m + m * (m + 1) div 2"
      by (simp only: div_mult_self4)
    then show ?thesis by (simp only: of_nat_add)
  qed
  have m: "int m < 2 ^ 63" using Suc.prems(1) by simp
  then have "isInt (int (Suc m) - 1)" by (simp add: isInt_def)
  then have e: "wrapInt (int (Suc m) - 1) = int m" by (simp add: wrapInt_id)
  have nz: "int (Suc m) \<noteq> 0" by simp
  have w: "wrapInt (wrapInt (a + int (Suc m)) + int (m * (m + 1) div 2)) =
      wrapInt (a + int (Suc m * (Suc m + 1) div 2))"
    unfolding wrapInt_add_left ar by (simp only: add.assoc)
  have ih: "execSeq (exec k' [sumDecl])
        (Map.empty(''n'' \<mapsto> wrapInt (int (Suc m) - 1), ''acc'' \<mapsto> wrapInt (a + int (Suc m)))) sumBody =
      (if m \<le> k' then Some (Returned (wrapInt (a + int (Suc m * (Suc m + 1) div 2)))) else None)"
    for k'
    unfolding e w [symmetric] by (rule Suc.IH [OF m isInt_wrapInt])
  show ?case
  proof (cases k)
    case 0
    show ?thesis
      unfolding 0 by (subst sum_rec_step) (simp only: nz if_False nat.case le_zero_eq nat.distinct)
  next
    case (Suc k')
    show ?thesis
      unfolding Suc
      by (subst sum_rec_step) (simp add: ih del: of_nat_Suc of_nat_mult of_nat_add)
  qed
qed

lemma sum_closed:
  assumes "0 \<le> n0" and "n0 < 2 ^ 63"
  shows "run k sumDecl [n0, 0] =
    (if nat n0 < k then Some (wrapInt (n0 * (n0 + 1) div 2)) else None)"
proof -
  have n: "int (nat n0) = n0" using assms by simp
  have "int (nat n0 * (nat n0 + 1) div 2) = int (nat n0) * (int (nat n0) + 1) div 2"
    by (simp only: zdiv_int of_nat_mult of_nat_add of_nat_1 of_nat_numeral)
  then have c: "int (nat n0 * (nat n0 + 1) div 2) = n0 * (n0 + 1) div 2"
    unfolding n .
  have i: "list_all isInt [n0, 0]" using assms by (simp add: isInt_def)
  have z: "isInt 0" by (simp add: isInt_def)
  have r: "execSeq (exec k' [sumDecl]) (Map.empty(''n'' \<mapsto> n0, ''acc'' \<mapsto> 0)) sumBody =
      (if nat n0 \<le> k' then Some (Returned (wrapInt (n0 * (n0 + 1) div 2))) else None)" for k'
    using sum_rec_closed [of "nat n0" 0 k'] assms z unfolding n c by (simp only: add_0 if_True)
  show ?thesis
  proof (cases k)
    case 0
    then show ?thesis unfolding run_sumDecl by simp
  next
    case (Suc k')
    show ?thesis
      unfolding Suc run_sumDecl using i by (simp add: r)
  qed
qed

text \<open>
  Declared as \<^verbatim>\<open>func Sum(n, acc int) int\<close>, both parameters in one field, the function of the
  scenario is rewritten into \<^verbatim>\<open>for n != 0 { tmpn := n - 1; n = tmpn }; return acc\<close>: on
  \<open>(3, 0)\<close> the recursive function returns 6 and the rewritten one 0. Declared with a
  field for each parameter, the rewritten function returns \<open>2 ^ 31 - 2 ^ 63\<close> on
  \<open>(2 ^ 32, 0)\<close>, where \<open>n0 * (n0 + 1) div 2\<close> is \<open>2 ^ 63 + 2 ^ 31\<close>.
\<close>

theorem sum_grouped_counterexample:
  "(case rewriteDecl sumGrouped of
      Inr r \<Rightarrow> withBody sumGrouped r = Some sumGroupedRewritten
    | Inl e \<Rightarrow> False) \<and>
   run 4 sumGrouped [3, 0] = Some 6 \<and>
   run 4 sumGroupedRewritten [3, 0] = Some 0 \<and>
   run (2 ^ 32 + 1) sumRewritten [2 ^ 32, 0] = Some (2 ^ 31 - 2 ^ 63) \<and>
   (2 ^ 32 * (2 ^ 32 + 1) div 2 :: int) = 2 ^ 63 + 2 ^ 31"
proof (intro conjI)
  show "case rewriteDecl sumGrouped of
      Inr r \<Rightarrow> withBody sumGrouped r = Some sumGroupedRewritten
    | Inl e \<Rightarrow> False"
    by (simp add: sumGrouped_def sumBody_def rewrite_eval withBody_def sumGroupedRewritten_def)
  show "run 4 sumGrouped [3, 0] = Some 6"
    by (simp add: run_def callOf_def lookupFunc_def sumGrouped_def sumBody_def eval_nat_numeral
        isInt_def wrapInt_def)
  show "run 4 sumGroupedRewritten [3, 0] = Some 0"
    by (simp add: run_def callOf_def lookupFunc_def sumGroupedRewritten_def eval_nat_numeral
        isInt_def wrapInt_def)
  have "run (2 ^ 32 + 1) sumDecl [2 ^ 32, 0] =
      (if nat (2 ^ 32) < (2 ^ 32 + 1 :: nat) then Some (wrapInt (2 ^ 32 * (2 ^ 32 + 1) div 2)) else None)"
    by (rule sum_closed) simp_all
  then show "run (2 ^ 32 + 1) sumRewritten [2 ^ 32, 0] = Some (2 ^ 31 - 2 ^ 63)"
    unfolding sum_equivalent by (simp add: wrapInt_def)
  show "(2 ^ 32 * (2 ^ 32 + 1) div 2 :: int) = 2 ^ 63 + 2 ^ 31"
    by simp
qed

text \<open>
  C1, as the code has it. The function \<^verbatim>\<open>Sum(n int, acc int)\<close>, each parameter in a field of
  its own, with the body \<^verbatim>\<open>if n == 0 { return acc }; return Sum(n - 1, acc + n)\<close> is
  rewritten into
  \<^verbatim>\<open>for n != 0 { tmpn := n - 1; tmpacc := acc + n; n, acc = tmpn, tmpacc }; return acc\<close>.
  With any fuel and on any two arguments the rewritten function and the recursive one
  give the same result: the same value, or none at all. For every \<open>n0\<close> from 0 up to
  \<open>2 ^ 63 - 1\<close> both return on \<open>(n0, 0)\<close> exactly when the fuel is more than \<open>n0\<close>, and
  then \<open>n0 * (n0 + 1) div 2\<close> wrapped around to 64 bits, which is \<open>n0 * (n0 + 1) div 2\<close>
  itself when that is less than \<open>2 ^ 63\<close>.
\<close>

theorem sum_scenario:
  "rewriteDecl sumDecl = Inr (NewBody sumLoop (Some (ReturnStmt [Ident ''acc'']))) \<and>
   withBody sumDecl (NewBody sumLoop (Some (ReturnStmt [Ident ''acc'']))) = Some sumRewritten \<and>
   (\<forall>k n a. run k sumRewritten [n, a] = run k sumDecl [n, a]) \<and>
   (0 \<le> n0 \<and> n0 < 2 ^ 63 \<longrightarrow>
      (\<forall>k. run k sumRewritten [n0, 0] =
              (if nat n0 < k then Some (wrapInt (n0 * (n0 + 1) div 2)) else None) \<and>
            run k sumDecl [n0, 0] =
              (if nat n0 < k then Some (wrapInt (n0 * (n0 + 1) div 2)) else None)) \<and>
      (n0 * (n0 + 1) div 2 < 2 ^ 63 \<longrightarrow>
         wrapInt (n0 * (n0 + 1) div 2) = n0 * (n0 + 1) div 2))"
proof (intro conjI allI impI)
  show "rewriteDecl sumDecl = Inr (NewBody sumLoop (Some (ReturnStmt [Ident ''acc''])))"
    by (simp add: sumDecl_def sumBody_def sumLoop_def rewrite_eval)
  show "withBody sumDecl (NewBody sumLoop (Some (ReturnStmt [Ident ''acc'']))) = Some sumRewritten"
    by (simp add: withBody_def sumDecl_def sumRewritten_def)
  show "run k sumRewritten [n, a] = run k sumDecl [n, a]" for k n a
    by (rule sum_equivalent)
next
  fix k assume h: "0 \<le> n0 \<and> n0 < 2 ^ 63"
  then show d: "run k sumDecl [n0, 0] =
      (if nat n0 < k then Some (wrapInt (n0 * (n0 + 1) div 2)) else None)"
    by (intro sum_closed) simp_all
  then show "run k sumRewritten [n0, 0] =
      (if nat n0 < k then Some (wrapInt (n0 * (n0 + 1) div 2)) else None)"
    by (simp only: sum_equivalent)
next
  assume h: "0 \<le> n0 \<and> n0 < 2 ^ 63" and s: "n0 * (n0 + 1) div 2 < 2 ^ 63"
  from h have "0 \<le> n0 * (n0 + 1) div 2"
    by (simp add: pos_imp_zdiv_nonneg_iff)
  with s have "isInt (n0 * (n0 + 1) div 2)" by (simp add: isInt_def)
  then show "wrapInt (n0 * (n0 + 1) div 2) = n0 * (n0 + 1) div 2" by (rule wrapInt_id)
qed

theorem sum_scenario_witness:
  "(0::int) \<le> 10 \<and> (10::int) < 2 ^ 63 \<and> (10 * (10 + 1) div 2 :: int) < 2 ^ 63 \<and>
   run 11 sumRewritten [10, 0] = Some 55 \<and> run 11 sumDecl [10, 0] = Some 55 \<and>
   run 10 sumRewritten [10, 0] = None \<and> run 10 sumDecl [10, 0] = None"
  using sum_scenario [of 10] by simp

section \<open>The swap scenario\<close>

lemma lookup_swap: "lookupFunc [swapDecl] ''F'' = Some ([''a'', ''b''], swapBody)"
  by (simp add: lookupFunc_def swapDecl_def)

lemma swap_rec_step:
  "execSeq (exec k [swapDecl]) (Map.empty(''a'' \<mapsto> x, ''b'' \<mapsto> y)) swapBody =
     (if x = 0 then Some (Returned y)
      else (case k of
              0 \<Rightarrow> None
            | Suc k' \<Rightarrow>
                (case execSeq (exec k' [swapDecl]) (Map.empty(''a'' \<mapsto> y, ''b'' \<mapsto> x)) swapBody of
                   Some (Returned v) \<Rightarrow> Some (Returned v)
                 | _ \<Rightarrow> None)))"
proof -
  have "execSeq (exec k [swapDecl]) (Map.empty(''a'' \<mapsto> x, ''b'' \<mapsto> y)) swapBody =
      execSeq (exec k [swapDecl]) (Map.empty(''a'' \<mapsto> x, ''b'' \<mapsto> y))
        [IfStmt None (BinaryExpr (Ident ''a'') EQL (BasicLit 0)) [ReturnStmt [Ident ''b'']] None,
         ReturnStmt [CallExpr (Ident ''F'') [Ident ''b'', Ident ''a'']]]"
    by (simp only: swapBody_def)
  also have "\<dots> = (if x = 0 then Some (Returned y)
      else (case k of
              0 \<Rightarrow> None
            | Suc k' \<Rightarrow>
                (case execSeq (exec k' [swapDecl]) (Map.empty(''a'' \<mapsto> y, ''b'' \<mapsto> x)) swapBody of
                   Some (Returned v) \<Rightarrow> Some (Returned v)
                 | _ \<Rightarrow> None)))"
    by (simp add: lookup_swap isInt_def split: nat.splits option.splits flow.splits)
  finally show ?thesis .
qed

lemma swap_staging:
  assumes "env ''a'' = Some x" and "env ''b'' = Some y"
  shows "execSeq (exec k ds) env swapStaging =
     Some (Next (env(''tmpa'' \<mapsto> y, ''tmpb'' \<mapsto> x, ''a'' \<mapsto> y, ''b'' \<mapsto> x)))"
  using assms by (simp add: swapStaging_def)

lemma swap_loop_step:
  assumes "env ''a'' = Some x" and "env ''b'' = Some y"
  shows "exec k ds env swapLoop =
     (if x = 0 then Some (Next env)
      else (case k of
              0 \<Rightarrow> None
            | Suc k' \<Rightarrow>
                exec k' ds (env(''tmpa'' \<mapsto> y, ''tmpb'' \<mapsto> x, ''a'' \<mapsto> y, ''b'' \<mapsto> x)) swapLoop))"
  unfolding for_step [of k ds env "BinaryExpr (Ident ''a'') NEQ (BasicLit 0)" swapStaging,
      folded swapLoop_def] swap_staging [OF assms]
  using assms by (simp add: isInt_def split: nat.splits)

lemma swap_simulation:
  "env ''a'' = Some x \<Longrightarrow> env ''b'' = Some y \<Longrightarrow>
   afterLoop (exec k [swapRewritten] env swapLoop) ''b'' =
   execSeq (exec k [swapDecl]) (Map.empty(''a'' \<mapsto> x, ''b'' \<mapsto> y)) swapBody"
proof (induction k arbitrary: env x y)
  case 0
  show ?case
    unfolding swap_loop_step [OF 0] swap_rec_step [of 0 x y]
    by (simp add: afterLoop_def 0)
next
  case (Suc k)
  show ?case
  proof (cases "x = 0")
    case True
    show ?thesis
      unfolding swap_loop_step [OF Suc.prems] swap_rec_step [of "Suc k" x y]
      using True by (simp add: afterLoop_def Suc.prems)
  next
    case False
    let ?env = "env(''tmpa'' \<mapsto> y, ''tmpb'' \<mapsto> x, ''a'' \<mapsto> y, ''b'' \<mapsto> x)"
    have ih: "afterLoop (exec k [swapRewritten] ?env swapLoop) ''b'' =
        execSeq (exec k [swapDecl]) (Map.empty(''a'' \<mapsto> y, ''b'' \<mapsto> x)) swapBody"
      by (rule Suc.IH) simp_all
    have "execSeq (exec k [swapDecl]) (Map.empty(''a'' \<mapsto> y, ''b'' \<mapsto> x)) swapBody \<noteq> Some (Next e)" for e
      unfolding ih [symmetric] by (rule afterLoop_not_Next)
    then have "(case execSeq (exec k [swapDecl]) (Map.empty(''a'' \<mapsto> y, ''b'' \<mapsto> x)) swapBody of
          Some (Returned v) \<Rightarrow> Some (Returned v) | _ \<Rightarrow> None) =
        execSeq (exec k [swapDecl]) (Map.empty(''a'' \<mapsto> y, ''b'' \<mapsto> x)) swapBody"
      by (auto split: option.splits flow.splits)
    then show ?thesis
      unfolding swap_loop_step [OF Suc.prems] swap_rec_step [of "Suc k" x y]
      using False ih by (simp del: fun_upd_apply)
  qed
qed

lemmas run_swapRewritten =
  run_unfold [of _ "''F''" "[Field [''a''] intT, Field [''b''] intT]"
    "[swapLoop, ReturnStmt [Ident ''b'']]", folded swapRewritten_def]

lemmas run_swapDecl =
  run_unfold [of _ "''F''" "[Field [''a''] intT, Field [''b''] intT]" swapBody,
    folded swapDecl_def]

lemma swap_equivalent: "run k swapRewritten [a0, b0] = run k swapDecl [a0, b0]"
proof (cases k)
  case 0
  then show ?thesis by (simp add: run_swapRewritten run_swapDecl)
next
  case (Suc k')
  show ?thesis
  proof (cases "list_all isInt [a0, b0]")
    case False
    then show ?thesis unfolding run_swapRewritten run_swapDecl by (simp only: if_False)
  next
    case True
    have "run k swapRewritten [a0, b0] =
        (case afterLoop (exec k' [swapRewritten] (Map.empty(''a'' \<mapsto> a0, ''b'' \<mapsto> b0)) swapLoop) ''b'' of
           Some (Returned v) \<Rightarrow> Some v | _ \<Rightarrow> None)"
      unfolding Suc run_swapRewritten loop_then_return using True by simp
    also have "\<dots> = run k swapDecl [a0, b0]"
      unfolding Suc run_swapDecl using True by (simp add: swap_simulation)
    finally show ?thesis .
  qed
qed

lemma swapTurn_eq:
  "env ''a'' = Some x \<Longrightarrow> env ''b'' = Some y \<Longrightarrow>
   swapTurn env = Some (env(''tmpa'' \<mapsto> y, ''tmpb'' \<mapsto> x, ''a'' \<mapsto> y, ''b'' \<mapsto> x))"
  unfolding swapTurn_def by (simp add: swap_staging)

lemma swapCall_eq:
  "env ''a'' = Some x \<Longrightarrow> env ''b'' = Some y \<Longrightarrow>
   swapCall env = Some (Map.empty(''a'' \<mapsto> y, ''b'' \<mapsto> x))"
  unfolding swapCall_def by simp

lemma swap_states:
  "e ''a'' = Some x \<Longrightarrow> e ''b'' = Some y \<Longrightarrow> e' ''a'' = Some x \<Longrightarrow> e' ''b'' = Some y \<Longrightarrow>
   \<exists>e1 e2. iter swapTurn n e = Some e1 \<and> iter swapCall n e' = Some e2 \<and>
     e1 ''a'' = e2 ''a'' \<and> e1 ''b'' = e2 ''b'' \<and>
     e1 ''a'' = Some (if even n then x else y) \<and> e1 ''b'' = Some (if even n then y else x)"
proof (induction n arbitrary: e e' x y)
  case 0
  then show ?case by simp
next
  case (Suc n)
  let ?e = "e(''tmpa'' \<mapsto> y, ''tmpb'' \<mapsto> x, ''a'' \<mapsto> y, ''b'' \<mapsto> x)"
  let ?e' = "Map.empty(''a'' \<mapsto> y, ''b'' \<mapsto> x)"
  have "\<exists>e1 e2. iter swapTurn n ?e = Some e1 \<and> iter swapCall n ?e' = Some e2 \<and>
     e1 ''a'' = e2 ''a'' \<and> e1 ''b'' = e2 ''b'' \<and>
     e1 ''a'' = Some (if even n then y else x) \<and> e1 ''b'' = Some (if even n then x else y)"
    by (rule Suc.IH) simp_all
  then obtain e1 e2 where
    "iter swapTurn n ?e = Some e1" "iter swapCall n ?e' = Some e2"
    "e1 ''a'' = e2 ''a''" "e1 ''b'' = e2 ''b''"
    "e1 ''a'' = Some (if even n then y else x)" "e1 ''b'' = Some (if even n then x else y)"
    by blast
  then have "iter swapTurn (Suc n) e = Some e1 \<and> iter swapCall (Suc n) e' = Some e2 \<and>
     e1 ''a'' = e2 ''a'' \<and> e1 ''b'' = e2 ''b'' \<and>
     e1 ''a'' = Some (if even (Suc n) then x else y) \<and>
     e1 ''b'' = Some (if even (Suc n) then y else x)"
    by (cases "even n")
      (simp_all add: swapTurn_eq [OF Suc.prems(1,2)] swapCall_eq [OF Suc.prems(3,4)] del: fun_upd_apply)
  then show ?case by blast
qed

text \<open>
  \<^verbatim>\<open>F(a, b int)\<close> declares two named parameters in one field. The staging statements are
  one declaring assignment and a combined assignment of \<open>a\<close> alone, not the statements
  that the specification words; on \<open>(1, 0)\<close> the recursive function returns 1 and the
  rewritten one returns 0.
\<close>

theorem grouped_swap_counterexample:
  "concat (map Names (Params swapGrouped)) = [''a'', ''b''] \<and>
   stagingSpec [''a'', ''b''] [Ident ''b'', Ident ''a''] = swapStaging \<and>
   makeAssignStmts (Params swapGrouped) [Ident ''b'', Ident ''a''] =
     Inr [AssignStmt [Ident ''tmpa''] DEFINE [Ident ''b''],
          AssignStmt [Ident ''a''] ASSIGN [Ident ''tmpa'']] \<and>
   makeAssignStmts (Params swapGrouped) [Ident ''b'', Ident ''a''] \<noteq>
     Inr (stagingSpec [''a'', ''b''] [Ident ''b'', Ident ''a'']) \<and>
   (case rewriteDecl swapGrouped of
      Inr r \<Rightarrow> withBody swapGrouped r = Some swapGroupedRewritten
    | Inl e \<Rightarrow> False) \<and>
   run 2 swapGrouped [1, 0] = Some 1 \<and>
   run 2 swapGroupedRewritten [1, 0] = Some 0"
proof (intro conjI)
  show "concat (map Names (Params swapGrouped)) = [''a'', ''b'']"
    by (simp add: swapGrouped_def)
  show "stagingSpec [''a'', ''b''] [Ident ''b'', Ident ''a''] = swapStaging"
    by (simp add: stagingSpec_def swapStaging_def)
  show "makeAssignStmts (Params swapGrouped) [Ident ''b'', Ident ''a''] =
     Inr [AssignStmt [Ident ''tmpa''] DEFINE [Ident ''b''],
          AssignStmt [Ident ''a''] ASSIGN [Ident ''tmpa'']]"
    by (simp add: swapGrouped_def makeAssignStmts_def Let_def)
  show "makeAssignStmts (Params swapGrouped) [Ident ''b'', Ident ''a''] \<noteq>
     Inr (stagingSpec [''a'', ''b''] [Ident ''b'', Ident ''a''])"
    by (simp add: swapGrouped_def makeAssignStmts_def Let_def stagingSpec_def)
  show "case rewriteDecl swapGrouped of
      Inr r \<Rightarrow> withBody swapGrouped r = Some swapGroupedRewritten
    | Inl e \<Rightarrow> False"
    by (simp add: swapGrouped_def swapBody_def rewrite_eval withBody_def swapGroupedRewritten_def)
  show "run 2 swapGrouped [1, 0] = Some 1"
    by (simp add: run_def callOf_def lookupFunc_def swapGrouped_def swapBody_def eval_nat_numeral
        isInt_def)
  show "run 2 swapGroupedRewritten [1, 0] = Some 0"
    by (simp add: run_def callOf_def lookupFunc_def swapGroupedRewritten_def eval_nat_numeral
        isInt_def)
qed

text \<open>
  C6, as the code has it. For every rewritten function the body of the loop begins with
  one declaring assignment per named parameter field, which assigns to the temporary of
  the first name of the field the call argument at the position of the field (the named
  fields are the first fields of the list, and the call has an argument for each), followed
  by exactly one combined assignment that updates the first names of all named fields
  from their temporaries. For \<^verbatim>\<open>F(a int, b int)\<close>, each parameter in a field of its own,
  with the body \<^verbatim>\<open>if a == 0 { return b }; return F(b, a)\<close>: the loop is
  \<^verbatim>\<open>for a != 0 { tmpa := b; tmpb := a; a, b = tmpa, tmpb }\<close>; one turn of it takes a state
  with \<open>a = x\<close> and \<open>b = y\<close> to \<open>a = y\<close> and \<open>b = x\<close>, the values to which the recursive
  call binds its parameters; after any number of turns from \<open>(a0, b0)\<close> the loop and the
  chain of recursive calls are in the same state of \<open>a\<close> and \<open>b\<close>; and with any fuel the
  rewritten function and the recursive one give the same result.
\<close>

theorem staging_simultaneous:
  "(rewriteDecl (FuncDecl f params (Some body)) = Inr (NewBody loop ret) \<longrightarrow>
      (\<exists>c tailRet call rest.
         findTailRecursionReturn f body = Some (tailRet, call) \<and>
         filter named params = take (length (filter named params)) params \<and>
         length (filter named params) \<le> length (callArgs call) \<and>
         loop = ForStmt None (Some c) None
                  (map declStmt (zip (filter named params) (callArgs call)) @
                   combinedStmt (filter named params) # rest))) \<and>
   rewriteDecl swapDecl = Inr (NewBody swapLoop (Some (ReturnStmt [Ident ''b'']))) \<and>
   withBody swapDecl (NewBody swapLoop (Some (ReturnStmt [Ident ''b'']))) = Some swapRewritten \<and>
   (e ''a'' = Some x \<and> e ''b'' = Some y \<longrightarrow>
      swapTurn e = Some (e(''tmpa'' \<mapsto> y, ''tmpb'' \<mapsto> x, ''a'' \<mapsto> y, ''b'' \<mapsto> x)) \<and>
      swapCall e = Some (Map.empty(''a'' \<mapsto> y, ''b'' \<mapsto> x))) \<and>
   (\<forall>n a0 b0. \<exists>e1 e2.
      iter swapTurn n (Map.empty(''a'' \<mapsto> a0, ''b'' \<mapsto> b0)) = Some e1 \<and>
      iter swapCall n (Map.empty(''a'' \<mapsto> a0, ''b'' \<mapsto> b0)) = Some e2 \<and>
      e1 ''a'' = e2 ''a'' \<and> e1 ''b'' = e2 ''b'' \<and>
      e1 ''a'' = Some (if even n then a0 else b0) \<and>
      e1 ''b'' = Some (if even n then b0 else a0)) \<and>
   (\<forall>k a0 b0. run k swapRewritten [a0, b0] = run k swapDecl [a0, b0])"
proof (intro conjI allI impI)
  assume "rewriteDecl (FuncDecl f params (Some body)) = Inr (NewBody loop ret)"
  then obtain tailRet call c ifBody staging where
    f: "findTailRecursionReturn f body = Some (tailRet, call)" and
    m: "makeAssignStmts params (callArgs call) = Inr staging" and
    l: "loop = ForStmt None (Some (loopCond c)) None (staging @ nonRecursiveStmts f body)"
    unfolding rewriteDecl_NewBody by blast
  from makeAssignStmts_Inr [OF m] makeAssignStmts_len [OF m] f l
  show "\<exists>c tailRet call rest.
         findTailRecursionReturn f body = Some (tailRet, call) \<and>
         filter named params = take (length (filter named params)) params \<and>
         length (filter named params) \<le> length (callArgs call) \<and>
         loop = ForStmt None (Some c) None
                  (map declStmt (zip (filter named params) (callArgs call)) @
                   combinedStmt (filter named params) # rest)"
    by simp
next
  show "rewriteDecl swapDecl = Inr (NewBody swapLoop (Some (ReturnStmt [Ident ''b''])))"
    by (simp add: swapDecl_def swapBody_def swapLoop_def swapStaging_def rewrite_eval)
  show "withBody swapDecl (NewBody swapLoop (Some (ReturnStmt [Ident ''b'']))) = Some swapRewritten"
    by (simp add: withBody_def swapDecl_def swapRewritten_def)
next
  assume h: "e ''a'' = Some x \<and> e ''b'' = Some y"
  then show "swapTurn e = Some (e(''tmpa'' \<mapsto> y, ''tmpb'' \<mapsto> x, ''a'' \<mapsto> y, ''b'' \<mapsto> x))"
    by (intro swapTurn_eq) simp_all
  from h show "swapCall e = Some (Map.empty(''a'' \<mapsto> y, ''b'' \<mapsto> x))"
    by (intro swapCall_eq) simp_all
next
  fix n a0 b0
  show "\<exists>e1 e2.
      iter swapTurn n (Map.empty(''a'' \<mapsto> a0, ''b'' \<mapsto> b0)) = Some e1 \<and>
      iter swapCall n (Map.empty(''a'' \<mapsto> a0, ''b'' \<mapsto> b0)) = Some e2 \<and>
      e1 ''a'' = e2 ''a'' \<and> e1 ''b'' = e2 ''b'' \<and>
      e1 ''a'' = Some (if even n then a0 else b0) \<and>
      e1 ''b'' = Some (if even n then b0 else a0)"
    by (rule swap_states) simp_all
next
  show "run k swapRewritten [a0, b0] = run k swapDecl [a0, b0]" for k a0 b0
    by (rule swap_equivalent)
qed

theorem staging_simultaneous_witness:
  "rewriteDecl (FuncDecl ''F'' [Field [''a''] intT, Field [''b''] intT] (Some swapBody)) =
     Inr (NewBody swapLoop (Some (ReturnStmt [Ident ''b'']))) \<and>
   (\<exists>c tailRet call rest.
      findTailRecursionReturn ''F'' swapBody = Some (tailRet, call) \<and>
      filter named [Field [''a''] intT, Field [''b''] intT] =
        take (length (filter named [Field [''a''] intT, Field [''b''] intT]))
          [Field [''a''] intT, Field [''b''] intT] \<and>
      length (filter named [Field [''a''] intT, Field [''b''] intT]) \<le> length (callArgs call) \<and>
      swapLoop = ForStmt None (Some c) None
        (map declStmt (zip (filter named [Field [''a''] intT, Field [''b''] intT]) (callArgs call)) @
         combinedStmt (filter named [Field [''a''] intT, Field [''b''] intT]) # rest)) \<and>
   (Map.empty(''a'' \<mapsto> 1::int, ''b'' \<mapsto> 2)) ''a'' = Some 1 \<and>
   (Map.empty(''a'' \<mapsto> 1::int, ''b'' \<mapsto> 2)) ''b'' = Some 2 \<and>
   swapTurn (Map.empty(''a'' \<mapsto> 1, ''b'' \<mapsto> 2)) =
     Some (Map.empty(''a'' \<mapsto> 1, ''b'' \<mapsto> 2, ''tmpa'' \<mapsto> 2, ''tmpb'' \<mapsto> 1, ''a'' \<mapsto> 2, ''b'' \<mapsto> 1)) \<and>
   swapCall (Map.empty(''a'' \<mapsto> 1, ''b'' \<mapsto> 2)) = Some (Map.empty(''a'' \<mapsto> 2, ''b'' \<mapsto> 1))"
proof -
  have h: "rewriteDecl (FuncDecl ''F'' [Field [''a''] intT, Field [''b''] intT] (Some swapBody)) =
     Inr (NewBody swapLoop (Some (ReturnStmt [Ident ''b''])))"
    by (simp add: swapBody_def swapLoop_def swapStaging_def rewrite_eval)
  have e: "(Map.empty(''a'' \<mapsto> 1::int, ''b'' \<mapsto> 2)) ''a'' = Some 1 \<and>
      (Map.empty(''a'' \<mapsto> 1::int, ''b'' \<mapsto> 2)) ''b'' = Some 2"
    by simp
  note t = staging_simultaneous [where f = "''F''" and params = "[Field [''a''] intT, Field [''b''] intT]"
      and body = swapBody and loop = swapLoop and ret = "Some (ReturnStmt [Ident ''b''])"
      and e = "Map.empty(''a'' \<mapsto> 1, ''b'' \<mapsto> 2)" and x = 1 and y = 2]
  from t h e show ?thesis by blast
qed

end
